theory Spec2Isabelle
  imports Complex_Main
begin

section \<open>Python values and dictionaries\<close>

text \<open>
  Tool arguments and tool outputs are JSON-like Python values. A Python \<open>dict\<close> keeps
  its keys in insertion order, and the runner iterates over one, so a dictionary is an
  association list with distinct keys. Python floats are modelled by the reals they
  denote (the source only compares them with \<open>0.0\<close> and \<open>1.0\<close>).
\<close>

datatype pyval =
    PNone
  | PBool bool
  | PInt int
  | PFloat real
  | PStr string
  | PList "pyval list"
  | PDict "(string \<times> pyval) list"

type_synonym dict = "(string \<times> pyval) list"

text \<open>\<open>k in d\<close>\<close>

definition dict_has :: "string \<Rightarrow> dict \<Rightarrow> bool" where
  "dict_has k d = (map_of d k \<noteq> None)"

text \<open>\<open>d[k] = v\<close>: an existing key keeps its position, a new key goes last.\<close>

fun dict_set :: "string \<Rightarrow> pyval \<Rightarrow> dict \<Rightarrow> dict" where
  "dict_set k v [] = [(k, v)]"
| "dict_set k v (p # ps) = (if fst p = k then (k, v) # ps else p # dict_set k v ps)"

text \<open>\<open>str(n)\<close> for an integer, and a name between single quotes as an f-string writes it.\<close>

function str_nat :: "nat \<Rightarrow> string" where
  "str_nat n = (if n < 10 then [''0123456789'' ! n]
                else str_nat (n div 10) @ [''0123456789'' ! (n mod 10)])"
  by pat_completeness auto
termination
  by (relation "measure id") auto

definition str_int :: "int \<Rightarrow> string" where
  "str_int i = (if i < 0 then CHR ''-'' # str_nat (nat (- i)) else str_nat (nat i))"

definition quoted :: "string \<Rightarrow> string" where
  "quoted s = [CHR 0x27] @ s @ [CHR 0x27]"

section \<open>Plan step model (schema.py)\<close>

text \<open>
  A raw plan is a list of dictionaries. A field of a raw step is missing, present with
  the value \<open>None\<close>, or present with a value of the declared type; the conversion of
  values of other types is the validation library's and is not part of this model.
\<close>

datatype 'a raw = Missing | Null | Val 'a

record raw_step =
  rs_step_id :: "int raw"
  rs_tool :: "string raw"
  rs_args :: "dict raw"
  rs_reason :: "string raw"
  rs_confidence :: "real raw"
  rs_retry :: "int raw"
  rs_requires_human :: "bool raw"

record plan_step =
  ps_step_id :: int
  ps_tool :: string
  ps_args :: dict
  ps_reason :: "string option"
  ps_confidence :: "real option"
  ps_retry :: "int option"
  ps_requires_human :: "bool option"

text \<open>
  A validation error lists, per field, what is wrong with it. \<open>ValidatorError\<close> carries
  the message of the \<open>ValueError\<close> raised by \<open>validate_tool_args\<close>.
\<close>

datatype field_problem =
    FieldRequired
  | NoneNotAllowed
  | UnexpectedValue
  | NotGe
  | NotLe
  | ValidatorError string

type_synonym field_error = "string \<times> field_problem"

definition tool_literals :: "string list" where
  "tool_literals = [''search'', ''open'', ''extract'', ''screenshot'', ''download'']"

definition required_args :: "(string \<times> string list) list" where
  "required_args =
     [(''search'', [''query'']),
      (''open'', [''url'']),
      (''extract'', [''selector'']),
      (''screenshot'', [''url'']),
      (''download'', [''url'', ''filename''])]"

text \<open>The loop over \<open>required_args[tool]\<close>: the first missing argument raises.\<close>

fun check_required :: "string \<Rightarrow> dict \<Rightarrow> string list \<Rightarrow> string option" where
  "check_required tool v [] = None"
| "check_required tool v (arg # rest) =
     (if \<not> dict_has arg v \<and> arg \<noteq> ''html''
      then Some (''Missing required argument '' @ quoted arg @ '' for tool '' @ quoted tool)
      else check_required tool v rest)"

text \<open>
  \<open>validate_tool_args(cls, v, values)\<close>; the second argument is \<open>values.get('tool')\<close>,
  absent when the field \<open>tool\<close> did not validate.
\<close>

definition validate_tool_args :: "dict \<Rightarrow> string option \<Rightarrow> string + dict" where
  "validate_tool_args v values_tool =
     (case values_tool of
        None \<Rightarrow> Inr v
      | Some tool \<Rightarrow>
          (case map_of required_args tool of
             None \<Rightarrow> Inr v
           | Some req \<Rightarrow>
               (case check_required tool v req of
                  Some m \<Rightarrow> Inl m
                | None \<Rightarrow> Inr v)))"

fun required_field :: "string \<Rightarrow> 'a raw \<Rightarrow> field_error list + 'a" where
  "required_field name Missing = Inl [(name, FieldRequired)]"
| "required_field name Null = Inl [(name, NoneNotAllowed)]"
| "required_field name (Val x) = Inr x"

fun optional_field :: "'a option \<Rightarrow> 'a raw \<Rightarrow> 'a option" where
  "optional_field dflt Missing = dflt"
| "optional_field dflt Null = None"
| "optional_field dflt (Val x) = Some x"

definition field_tool :: "string raw \<Rightarrow> field_error list + string" where
  "field_tool r =
     (case required_field ''tool'' r of
        Inl e \<Rightarrow> Inl e
      | Inr t \<Rightarrow> if List.member tool_literals t then Inr t else Inl [(''tool'', UnexpectedValue)])"

definition field_args :: "dict raw \<Rightarrow> string option \<Rightarrow> field_error list + dict" where
  "field_args r values_tool =
     (case required_field ''args'' r of
        Inl e \<Rightarrow> Inl e
      | Inr v \<Rightarrow>
          (case validate_tool_args v values_tool of
             Inl m \<Rightarrow> Inl [(''args'', ValidatorError m)]
           | Inr v' \<Rightarrow> Inr v'))"

text \<open>\<open>confidence: Optional[float] = Field(None, ge=0.0, le=1.0)\<close>\<close>

definition field_confidence :: "real raw \<Rightarrow> field_error list + real option" where
  "field_confidence r =
     (case optional_field None r of
        None \<Rightarrow> Inr None
      | Some c \<Rightarrow>
          if \<not> (0 \<le> c) then Inl [(''confidence'', NotGe)]
          else if \<not> (c \<le> 1) then Inl [(''confidence'', NotLe)]
          else Inr (Some c))"

text \<open>\<open>retry: Optional[int] = Field(0, ge=0)\<close>\<close>

definition field_retry :: "int raw \<Rightarrow> field_error list + int option" where
  "field_retry r =
     (case optional_field (Some 0) r of
        None \<Rightarrow> Inr None
      | Some n \<Rightarrow> if \<not> (0 \<le> n) then Inl [(''retry'', NotGe)] else Inr (Some n))"

fun errors_of :: "field_error list + 'a \<Rightarrow> field_error list" where
  "errors_of (Inl e) = e"
| "errors_of (Inr _) = []"

fun value_of :: "field_error list + 'a \<Rightarrow> 'a option" where
  "value_of (Inl _) = None"
| "value_of (Inr x) = Some x"

text \<open>
  \<open>PlanStep(**step)\<close>: the fields are validated in declaration order, every failure is
  collected, and the model is built only when there is none.
\<close>

definition PlanStep :: "raw_step \<Rightarrow> field_error list + plan_step" where
  "PlanStep step =
     (let f_id = required_field ''step_id'' (rs_step_id step);
          f_tool = field_tool (rs_tool step);
          f_args = field_args (rs_args step) (value_of f_tool);
          f_conf = field_confidence (rs_confidence step);
          f_retry = field_retry (rs_retry step)
      in case (f_id, f_tool, f_args, f_conf, f_retry) of
           (Inr i, Inr t, Inr a, Inr c, Inr n) \<Rightarrow>
             Inr \<lparr> ps_step_id = i, ps_tool = t, ps_args = a,
                   ps_reason = optional_field None (rs_reason step),
                   ps_confidence = c, ps_retry = n,
                   ps_requires_human = optional_field (Some False) (rs_requires_human step) \<rparr>
         | _ \<Rightarrow>
             Inl (errors_of f_id @ errors_of f_tool @ errors_of f_args
                  @ errors_of f_conf @ errors_of f_retry))"

text \<open>\<open>[PlanStep(**step) for step in plan_steps]\<close>: the first invalid step raises.\<close>

fun validate_steps :: "raw_step list \<Rightarrow> field_error list + plan_step list" where
  "validate_steps [] = Inr []"
| "validate_steps (step # rest) =
     (case PlanStep step of
        Inl e \<Rightarrow> Inl e
      | Inr p \<Rightarrow>
          (case validate_steps rest of
             Inl e \<Rightarrow> Inl e
           | Inr ps \<Rightarrow> Inr (p # ps)))"

section \<open>Execution results (schema.py)\<close>

datatype status = Ok | Error | Paused | Running

text \<open>
  The timestamps are left out; \<open>finished\<close> says whether \<open>finished_at\<close> has been set.
\<close>

record execution_step_result =
  sr_step_id :: int
  sr_status :: status
  sr_output :: pyval
  sr_error_message :: "string option"
  sr_finished :: bool
  sr_retry_count :: nat

record execution_result =
  er_task_id :: string
  er_status :: status
  er_steps :: "execution_step_result list"
  er_finished :: bool
  er_error_message :: "string option"
  er_session_id :: "string option"

text \<open>\<open>if error_message:\<close> is false for \<open>None\<close> and for the empty string.\<close>

definition truthy_str :: "string option \<Rightarrow> bool" where
  "truthy_str m = (case m of None \<Rightarrow> False | Some s \<Rightarrow> s \<noteq> [])"

definition step_mark_finished ::
  "status \<Rightarrow> pyval \<Rightarrow> string option \<Rightarrow> execution_step_result \<Rightarrow> execution_step_result" where
  "step_mark_finished st output error_message r =
     (let r1 = r\<lparr>sr_finished := True, sr_status := st\<rparr>;
          r2 = (if output \<noteq> PNone then r1\<lparr>sr_output := output\<rparr> else r1)
      in if truthy_str error_message then r2\<lparr>sr_error_message := error_message\<rparr> else r2)"

definition mark_finished ::
  "status \<Rightarrow> string option \<Rightarrow> execution_result \<Rightarrow> execution_result" where
  "mark_finished st error_message r =
     (let r1 = r\<lparr>er_finished := True, er_status := st\<rparr>
      in if truthy_str error_message then r1\<lparr>er_error_message := error_message\<rparr> else r1)"
section \<open>Exceptions and outcomes\<close>

text \<open>
  An exception is kept as its class and \<open>str(e)\<close>. Only three things about the class
  matter to the runner: whether it is \<open>concurrent.futures.TimeoutError\<close> (the built-in
  \<open>TimeoutError\<close> from Python 3.11 on), whether it is an \<open>Exception\<close> at all, and
  which error the repository raises itself. \<open>BaseExceptionOnly\<close> stands for
  \<open>SystemExit\<close>, \<open>KeyboardInterrupt\<close> and the other exceptions that are not
  instances of \<open>Exception\<close>.
\<close>

datatype exc_class = ValueError | RuntimeError | TimeoutError | OtherException | BaseExceptionOnly

type_synonym exc = "exc_class \<times> string"

definition is_Exception :: "exc_class \<Rightarrow> bool" where
  "is_Exception c = (c \<noteq> BaseExceptionOnly)"

text \<open>
  What a call of a Python function comes to, with the state it leaves: it returns
  a value, an exception leaves it, or it never returns.
\<close>

datatype ('a, 's) outcome = Returns 'a 's | Raises exc 's | NeverReturns 's

fun state_of :: "('a, 's) outcome \<Rightarrow> 's" where
  "state_of (Returns x s) = s"
| "state_of (Raises e s) = s"
| "state_of (NeverReturns s) = s"

section \<open>Tool registry (tools.py)\<close>

text \<open>
  A tool is an external function: called with keyword arguments in a world \<open>'w\<close>, it
  completes after some duration (in seconds), returning a value or raising, and leaves
  a new world; or it blocks and never completes.
\<close>

datatype tool_result = Returned pyval | Raised exc

datatype 'w tool_call = Completes tool_result real 'w | Blocks

type_synonym 'w tool = "dict \<Rightarrow> 'w \<Rightarrow> 'w tool_call"

text \<open>
  The environment of a run: the registry's table in insertion order, the configured
  \<open>step_timeout\<close>, and the two renderings that belong to the Python runtime and the
  validation library (\<open>str\<close> of a validation error, \<open>repr\<close> of the list of keys).
  The table is a parameter: \<open>ToolRegistry\<close> fills it with five default tools when
  it is created, \<open>register\<close> adds or replaces an entry, and the runner reads whatever
  the module-level instance holds when a step is executed.
\<close>

record 'w runner_env =
  registry :: "(string \<times> 'w tool) list"
  step_timeout :: int
  str_validation_error :: "field_error list \<Rightarrow> string"
  repr_keys :: "string list \<Rightarrow> string"

text \<open>\<open>ToolRegistry.get_tool\<close>, reached through \<open>get_tool_function\<close>.\<close>

definition get_tool :: "'w runner_env \<Rightarrow> string \<Rightarrow> string + 'w tool" where
  "get_tool env name =
     (case map_of (registry env) name of
        None \<Rightarrow>
          Inl (''Tool '' @ quoted name @ '' not found. Available tools: ''
               @ repr_keys env (map fst (registry env)))
      | Some func \<Rightarrow> Inr func)"

definition get_tool_function :: "'w runner_env \<Rightarrow> string \<Rightarrow> string + 'w tool" where
  "get_tool_function env tool_name = get_tool env tool_name"

section \<open>The native runner (custom_runner.py)\<close>

text \<open>
  The state a run threads through: the world the tools act on, and four logs. \<open>calls\<close>
  has every tool invocation (step id, tool name, keyword arguments); \<open>attempts\<close> has
  every call of \<open>_execute_step\<close> with the way it ended; \<open>updates\<close> has every call of
  the progress callback; \<open>runner_calls\<close> and \<open>saved\<close> are the facade's.
\<close>

datatype attempt =
    AttemptReturned pyval
  | AttemptFailed string
  | AttemptEscaped exc
  | AttemptBlocked

record 'w exec_state =
  world :: 'w
  calls :: "(int \<times> string \<times> dict) list"
  attempts :: "(int \<times> attempt) list"
  updates :: "(int \<times> status \<times> pyval) list"
  runner_calls :: "string list"
  saved :: "execution_result list"

text \<open>
  The progress callback is the caller's: given the calls it has received so far and
  the arguments of this one, it returns, raises or never returns.
\<close>

datatype cb_result = CbReturns | CbRaises exc | CbBlocks

type_synonym callback = "(int \<times> status \<times> pyval) list \<Rightarrow> int \<Rightarrow> status \<Rightarrow> pyval \<Rightarrow> cb_result"

text \<open>\<open>if on_update: on_update(step_id, status, output)\<close>\<close>

definition call_on_update ::
  "callback option \<Rightarrow> int \<Rightarrow> status \<Rightarrow> pyval \<Rightarrow> 'w exec_state \<Rightarrow> (unit, 'w exec_state) outcome" where
  "call_on_update on_update step_id st output s =
     (case on_update of
        None \<Rightarrow> Returns () s
      | Some f \<Rightarrow>
          (let s' = s\<lparr>updates := updates s @ [(step_id, st, output)]\<rparr>
           in case f (updates s) step_id st output of
                CbReturns \<Rightarrow> Returns () s'
              | CbRaises e \<Rightarrow> Raises e s'
              | CbBlocks \<Rightarrow> NeverReturns s'))"

text \<open>\<open>isinstance(value, str) and value.startswith("<")\<close>\<close>

fun is_markup :: "pyval \<Rightarrow> bool" where
  "is_markup (PStr s) = (case s of [] \<Rightarrow> False | c # _ \<Rightarrow> c = CHR ''<'')"
| "is_markup _ = False"

text \<open>
  The arguments of the call: a copy of the step's, and for \<open>extract\<close> without
  \<open>html\<close> the first value of the context, in its order, that is a markup string.
\<close>

definition prepare_args :: "plan_step \<Rightarrow> dict \<Rightarrow> dict" where
  "prepare_args step context =
     (let args = ps_args step
      in if ps_tool step = ''extract'' \<and> \<not> dict_has ''html'' args
         then (case find (\<lambda>(key, value). is_markup value) context of
                 Some (key, value) \<Rightarrow> dict_set ''html'' value args
               | None \<Rightarrow> args)
         else args)"

text \<open>The message of the \<open>RuntimeError\<close> raised by the \<open>except FutureTimeoutError\<close> clause.\<close>

definition timed_out_message :: "'w runner_env \<Rightarrow> plan_step \<Rightarrow> string" where
  "timed_out_message env step =
     ''Step '' @ str_int (ps_step_id step) @ '' timed out after ''
     @ str_int (step_timeout env) @ '' seconds''"

definition end_attempt :: "plan_step \<Rightarrow> attempt \<Rightarrow> 'w exec_state \<Rightarrow> 'w exec_state" where
  "end_attempt step a s = s\<lparr>attempts := attempts s @ [(ps_step_id step, a)]\<rparr>"

text \<open>
  \<open>CustomRunner._execute_step\<close>. The tool runs in a worker thread and
  \<open>future.result(timeout=step_timeout)\<close> waits for it. When the result is not there in
  time, \<open>TimeoutError\<close> is raised in the runner, and leaving the \<open>with\<close> block waits
  for the worker: if the call completes later, whatever it brings is dropped and the
  \<open>RuntimeError\<close> of the timeout goes on; if it never completes, the runner stays
  there. When the result is there in time, a returned value is returned; a raised
  \<open>TimeoutError\<close> is caught by the same \<open>except FutureTimeoutError\<close> clause; any other
  \<open>Exception\<close> is caught by \<open>except Exception\<close>; anything else leaves the method as
  it is.
\<close>

definition execute_step ::
  "'w runner_env \<Rightarrow> plan_step \<Rightarrow> dict \<Rightarrow> 'w exec_state \<Rightarrow> (pyval, 'w exec_state) outcome" where
  "execute_step env step context s =
     (case get_tool_function env (ps_tool step) of
        Inl e \<Rightarrow>
          Raises (RuntimeError, ''Tool not available: '' @ e)
            (end_attempt step (AttemptFailed (''Tool not available: '' @ e)) s)
      | Inr tool_func \<Rightarrow>
          (let args = prepare_args step context;
               s1 = s\<lparr>calls := calls s @ [(ps_step_id step, ps_tool step, args)]\<rparr>
           in case tool_func args (world s) of
                Blocks \<Rightarrow> NeverReturns (end_attempt step AttemptBlocked s1)
              | Completes r duration w' \<Rightarrow>
                  (let s2 = s1\<lparr>world := w'\<rparr>
                   in if duration > real_of_int (step_timeout env)
                      then Raises (RuntimeError, timed_out_message env step)
                             (end_attempt step (AttemptFailed (timed_out_message env step)) s2)
                      else (case r of
                              Returned v \<Rightarrow> Returns v (end_attempt step (AttemptReturned v) s2)
                            | Raised (c, e) \<Rightarrow>
                                if c = TimeoutError
                                then Raises (RuntimeError, timed_out_message env step)
                                       (end_attempt step
                                          (AttemptFailed (timed_out_message env step)) s2)
                                else if is_Exception c
                                then Raises (RuntimeError, ''Tool execution failed: '' @ e)
                                       (end_attempt step
                                          (AttemptFailed (''Tool execution failed: '' @ e)) s2)
                                else Raises (c, e) (end_attempt step (AttemptEscaped (c, e)) s2)))))"

definition context_key :: "int \<Rightarrow> string" where
  "context_key step_id = ''step_'' @ str_int step_id @ ''_output''"

text \<open>
  \<open>step.retry and step_result.retry_count < step.retry\<close>, and the truthiness of
  \<open>step.requires_human\<close>.
\<close>

definition may_retry :: "int option \<Rightarrow> nat \<Rightarrow> bool" where
  "may_retry retry retry_count =
     (case retry of None \<Rightarrow> False | Some k \<Rightarrow> k \<noteq> 0 \<and> int retry_count < k)"

definition truthy_bool :: "bool option \<Rightarrow> bool" where
  "truthy_bool b = (case b of None \<Rightarrow> False | Some v \<Rightarrow> v)"

text \<open>
  A \<open>try\<close> block of the loop comes to one of four ends: it is passed, with the step
  result and the context as they are then; an \<open>Exception\<close> was raised in it and is
  caught by its \<open>except Exception\<close> clause, which gets \<open>str(e)\<close>; an exception that
  is not an \<open>Exception\<close> goes through; or it never ends.
\<close>

datatype 'w tried =
    Passed execution_step_result dict "'w exec_state"
  | Caught string execution_step_result "'w exec_state"
  | Uncaught exc "'w exec_state"
  | Stuck "'w exec_state"

definition in_try ::
  "('a, 'w exec_state) outcome \<Rightarrow> execution_step_result
     \<Rightarrow> ('a \<Rightarrow> 'w exec_state \<Rightarrow> 'w tried) \<Rightarrow> 'w tried" where
  "in_try c step_result continue =
     (case c of
        Returns x s \<Rightarrow> continue x s
      | Raises (cls, m) s \<Rightarrow>
          if is_Exception cls then Caught m step_result s else Uncaught (cls, m) s
      | NeverReturns s \<Rightarrow> Stuck s)"

text \<open>
  The first \<open>try\<close> block (lines 78 to 90): the step is executed, marked \<open>ok\<close>, the
  callback is told, and the output is stored in the context.
\<close>

definition try_step ::
  "'w runner_env \<Rightarrow> callback option \<Rightarrow> plan_step \<Rightarrow> execution_step_result \<Rightarrow> dict
     \<Rightarrow> 'w exec_state \<Rightarrow> 'w tried" where
  "try_step env on_update step step_result step_context s =
     in_try (execute_step env step step_context s) step_result
       (\<lambda>output s1.
          let step_result' = step_mark_finished Ok output None step_result
          in in_try (call_on_update on_update (ps_step_id step) Ok output s1) step_result'
               (\<lambda>_ s2. Passed step_result'
                          (dict_set (context_key (ps_step_id step)) output step_context) s2))"

text \<open>
  The inner \<open>try\<close> block of the retry (lines 101 to 109): the step is executed again,
  marked \<open>ok\<close>, the output is stored, and the callback is told.
\<close>

definition retry_step ::
  "'w runner_env \<Rightarrow> callback option \<Rightarrow> plan_step \<Rightarrow> execution_step_result \<Rightarrow> dict
     \<Rightarrow> 'w exec_state \<Rightarrow> 'w tried" where
  "retry_step env on_update step step_result step_context s =
     in_try (execute_step env step step_context s) step_result
       (\<lambda>output s1.
          let step_result' = step_mark_finished Ok output None step_result;
              step_context' = dict_set (context_key (ps_step_id step)) output step_context
          in in_try (call_on_update on_update (ps_step_id step) Ok output s1) step_result'
               (\<lambda>_ s2. Passed step_result' step_context' s2))"

text \<open>
  One turn of the loop comes to one of four ends: the loop goes on with the next step,
  \<open>execute_plan\<close> returns the result, an exception leaves \<open>execute_plan\<close>, or the
  runner never comes back.
\<close>

datatype 'w step_end =
    Continue execution_result dict "'w exec_state"
  | Stop execution_result "'w exec_state"
  | Escapes exc "'w exec_state"
  | Hangs "'w exec_state"

text \<open>
  The end of the \<open>except\<close> block of \<open>execute_plan\<close> (lines 115 to 132): the step is
  paused or failed, the callback is told, and the result is returned. An exception of
  the callback is raised inside an \<open>except\<close> block and leaves \<open>execute_plan\<close>,
  whatever its class. \<open>result.steps\<close> holds the step result by reference, so the list
  ends with the step result as it is when the loop leaves it.
\<close>

definition handle_failure ::
  "callback option \<Rightarrow> plan_step \<Rightarrow> execution_result \<Rightarrow> execution_step_result \<Rightarrow> string
     \<Rightarrow> 'w exec_state \<Rightarrow> 'w step_end" where
  "handle_failure on_update step result step_result error_msg s =
     (if truthy_bool (ps_requires_human step)
      then
        (case call_on_update on_update (ps_step_id step) Paused (PStr error_msg) s of
           Returns _ s' \<Rightarrow>
             Stop (mark_finished Paused
                     (Some (''Step '' @ str_int (ps_step_id step)
                            @ '' requires human intervention''))
                     (result\<lparr>er_steps := er_steps result @
                        [step_mark_finished Paused PNone
                           (Some (''Human intervention required: '' @ error_msg))
                           step_result]\<rparr>)) s'
         | Raises e s' \<Rightarrow> Escapes e s'
         | NeverReturns s' \<Rightarrow> Hangs s')
      else
        (case call_on_update on_update (ps_step_id step) Error (PStr error_msg) s of
           Returns _ s' \<Rightarrow>
             Stop (mark_finished Error
                     (Some (''Step '' @ str_int (ps_step_id step) @ '' failed: '' @ error_msg))
                     (result\<lparr>er_steps := er_steps result @
                        [step_mark_finished Error PNone (Some error_msg) step_result]\<rparr>)) s'
         | Raises e s' \<Rightarrow> Escapes e s'
         | NeverReturns s' \<Rightarrow> Hangs s'))"

text \<open>The body of the \<open>for step in validated_steps\<close> loop (lines 69 to 132).\<close>

definition run_step ::
  "'w runner_env \<Rightarrow> callback option \<Rightarrow> plan_step \<Rightarrow> execution_result \<Rightarrow> dict
     \<Rightarrow> 'w exec_state \<Rightarrow> 'w step_end" where
  "run_step env on_update step result step_context s =
     (let step_result = \<lparr> sr_step_id = ps_step_id step, sr_status = Running, sr_output = PNone,
                           sr_error_message = None, sr_finished = False, sr_retry_count = 0 \<rparr>
      in case call_on_update on_update (ps_step_id step) Running PNone s of
           Raises e s1 \<Rightarrow> Escapes e s1
         | NeverReturns s1 \<Rightarrow> Hangs s1
         | Returns _ s1 \<Rightarrow>
             (case try_step env on_update step step_result step_context s1 of
                Passed sr step_context' s2 \<Rightarrow>
                  Continue (result\<lparr>er_steps := er_steps result @ [sr]\<rparr>) step_context' s2
              | Uncaught e s2 \<Rightarrow> Escapes e s2
              | Stuck s2 \<Rightarrow> Hangs s2
              | Caught error_msg sr s2 \<Rightarrow>
                  if may_retry (ps_retry step) (sr_retry_count sr)
                  then
                    (let sr1 = sr\<lparr>sr_retry_count := sr_retry_count sr + 1\<rparr>
                     in case retry_step env on_update step sr1 step_context s2 of
                          Passed sr2 step_context' s3 \<Rightarrow>
                            Continue (result\<lparr>er_steps := er_steps result @ [sr2]\<rparr>)
                              step_context' s3
                        | Uncaught e s3 \<Rightarrow> Escapes e s3
                        | Stuck s3 \<Rightarrow> Hangs s3
                        | Caught retry_error sr2 s3 \<Rightarrow>
                            handle_failure on_update step result sr2
                              (''Step failed after '' @ str_nat (sr_retry_count sr2)
                               @ '' retries: '' @ retry_error) s3)
                  else handle_failure on_update step result sr error_msg s2))"

text \<open>The loop, and what follows it.\<close>

fun run_steps ::
  "'w runner_env \<Rightarrow> callback option \<Rightarrow> plan_step list \<Rightarrow> execution_result \<Rightarrow> dict
     \<Rightarrow> 'w exec_state \<Rightarrow> (execution_result, 'w exec_state) outcome" where
  "run_steps env on_update [] result step_context s = Returns (mark_finished Ok None result) s"
| "run_steps env on_update (step # rest) result step_context s =
     (case run_step env on_update step result step_context s of
        Continue result' step_context' s' \<Rightarrow> run_steps env on_update rest result' step_context' s'
      | Stop result' s' \<Rightarrow> Returns result' s'
      | Escapes e s' \<Rightarrow> Raises e s'
      | Hangs s' \<Rightarrow> NeverReturns s')"

text \<open>\<open>CustomRunner.execute_plan\<close>\<close>

definition CustomRunner_execute_plan ::
  "'w runner_env \<Rightarrow> raw_step list \<Rightarrow> string \<Rightarrow> string option \<Rightarrow> callback option
     \<Rightarrow> 'w exec_state \<Rightarrow> (execution_result, 'w exec_state) outcome" where
  "CustomRunner_execute_plan env plan_steps task_id session_id on_update s =
     (let result = \<lparr> er_task_id = task_id, er_status = Running, er_steps = [],
                      er_finished = False, er_error_message = None,
                      er_session_id = session_id \<rparr>
      in case validate_steps plan_steps of
           Inl e \<Rightarrow>
             Returns (mark_finished Error
                (Some (''Invalid plan format: '' @ str_validation_error env e)) result) s
         | Inr validated_steps \<Rightarrow> run_steps env on_update validated_steps result [] s)"

section \<open>The public facade (executor.py)\<close>

text \<open>
  \<open>get_runner\<close> chooses the agent runner when the configuration asks for it and its
  import succeeds, and the native runner otherwise. The agent runner belongs to an
  external framework and is a parameter, absent when the import fails.
\<close>

type_synonym 'w runner =
  "raw_step list \<Rightarrow> string \<Rightarrow> string option \<Rightarrow> callback option \<Rightarrow> 'w exec_state
     \<Rightarrow> (execution_result, 'w exec_state) outcome"

record 'w facade_env =
  langchain_enabled :: bool
  langchain_runner :: "'w runner option"
  custom_env :: "'w runner_env"
  uuid_hex8 :: string
  save_fails :: bool

definition get_runner :: "'w facade_env \<Rightarrow> 'w runner" where
  "get_runner fenv =
     (if langchain_enabled fenv
      then (case langchain_runner fenv of
              Some r \<Rightarrow> r
            | None \<Rightarrow> CustomRunner_execute_plan (custom_env fenv))
      else CustomRunner_execute_plan (custom_env fenv))"

text \<open>The wrapper \<open>update_callback\<close>: it logs, and calls the caller's callback if any.\<close>

definition update_callback :: "callback option \<Rightarrow> callback" where
  "update_callback on_update =
     (\<lambda>history step_id st output.
        case on_update of
          None \<Rightarrow> CbReturns
        | Some f \<Rightarrow> f history step_id st output)"

text \<open>
  \<open>execute_plan\<close> of the facade. A failure to save the result is logged and dropped.
\<close>

definition execute_plan ::
  "'w facade_env \<Rightarrow> raw_step list \<Rightarrow> string option \<Rightarrow> string option \<Rightarrow> callback option
     \<Rightarrow> bool \<Rightarrow> 'w exec_state \<Rightarrow> (execution_result, 'w exec_state) outcome" where
  "execute_plan fenv plan session_id task_id on_update save_results s =
     (if plan = [] then Raises (ValueError, ''Plan cannot be empty'') s
      else
        (let task_id' = (case task_id of None \<Rightarrow> ''task_'' @ uuid_hex8 fenv | Some t \<Rightarrow> t);
             runner = get_runner fenv
         in case runner plan task_id' session_id (Some (update_callback on_update))
                   (s\<lparr>runner_calls := runner_calls s @ [task_id']\<rparr>) of
              Returns result s1 \<Rightarrow>
                Returns result
                  (if save_results \<and> \<not> save_fails fenv
                   then s1\<lparr>saved := saved s1 @ [result]\<rparr> else s1)
            | Raises e s1 \<Rightarrow> Raises e s1
            | NeverReturns s1 \<Rightarrow> NeverReturns s1))"

section \<open>Example tools and plans\<close>

text \<open>
  A world that counts the tool invocations made so far. \<open>flaky r v\<close> raises an
  ordinary exception on its first \<open>r\<close> invocations and returns \<open>v\<close> from then on.
\<close>

definition flaky :: "nat \<Rightarrow> pyval \<Rightarrow> nat tool" where
  "flaky r v =
     (\<lambda>args n. Completes (if n < r then Raised (OtherException, ''boom'') else Returned v) 0
                  (Suc n))"

definition flaky_env :: "nat \<Rightarrow> nat runner_env" where
  "flaky_env r =
     \<lparr> registry = [(''search'', flaky r (PStr ''done''))], step_timeout = 60,
       str_validation_error = (\<lambda>_. ''validation error''), repr_keys = (\<lambda>_. ''[]'') \<rparr>"

definition initial_state :: "nat exec_state" where
  "initial_state =
     \<lparr> world = 0, calls = [], attempts = [], updates = [], runner_calls = [], saved = [] \<rparr>"

text \<open>A callback that takes note and returns.\<close>

definition recorder :: callback where
  "recorder = (\<lambda>history step_id st output. CbReturns)"

definition search_step :: "int \<Rightarrow> raw_step" where
  "search_step r =
     \<lparr> rs_step_id = Val 1, rs_tool = Val ''search'', rs_args = Val [(''query'', PStr ''q'')],
       rs_reason = Missing, rs_confidence = Missing, rs_retry = Val r,
       rs_requires_human = Missing \<rparr>"

definition native_facade :: "nat facade_env" where
  "native_facade =
     \<lparr> langchain_enabled = False, langchain_runner = None, custom_env = flaky_env 0,
       uuid_hex8 = ''0a1b2c3d'', save_fails = False \<rparr>"

definition two_searches :: "raw_step list" where
  "two_searches = [search_step 1, (search_step 0)\<lparr>rs_step_id := Val 2\<rparr>]"

text \<open>What the run of \<open>two_searches\<close> leaves when the tool fails twice.\<close>

definition failed_result :: execution_result where
  "failed_result =
     \<lparr>er_task_id = ''t'', er_status = Error,
      er_steps =
        [\<lparr>sr_step_id = 1, sr_status = Error, sr_output = PNone,
          sr_error_message = Some ''Step failed after 1 retries: Tool execution failed: boom'',
          sr_finished = True, sr_retry_count = 1\<rparr>],
      er_finished = True,
      er_error_message =
        Some ''Step 1 failed: Step failed after 1 retries: Tool execution failed: boom'',
      er_session_id = None\<rparr>"

definition failed_state :: "nat exec_state" where
  "failed_state =
     \<lparr>world = 2,
      calls = [(1, ''search'', [(''query'', PStr ''q'')]), (1, ''search'', [(''query'', PStr ''q'')])],
      attempts = [(1, AttemptFailed ''Tool execution failed: boom''),
                  (1, AttemptFailed ''Tool execution failed: boom'')],
      updates =
        [(1, Running, PNone),
         (1, Error, PStr ''Step failed after 1 retries: Tool execution failed: boom'')],
      runner_calls = [], saved = []\<rparr>"

text \<open>
  A registry with \<open>open\<close> and \<open>extract\<close>: \<open>open\<close> returns the page \<open><a>\<close> on the
  first invocation and \<open><b>\<close> afterwards.
\<close>

definition open_tool :: "nat tool" where
  "open_tool =
     (\<lambda>args n. Completes (Returned (PStr (if n = 0 then ''<a>'' else ''<b>''))) 0 (Suc n))"

definition extract_tool :: "nat tool" where
  "extract_tool = (\<lambda>args n. Completes (Returned (PList [])) 0 (Suc n))"

definition browse_env :: "nat runner_env" where
  "browse_env =
     \<lparr> registry = [(''open'', open_tool), (''extract'', extract_tool)], step_timeout = 60,
       str_validation_error = (\<lambda>_. ''validation error''), repr_keys = (\<lambda>_. ''[]'') \<rparr>"

definition open_step :: "int \<Rightarrow> raw_step" where
  "open_step i =
     \<lparr> rs_step_id = Val i, rs_tool = Val ''open'', rs_args = Val [(''url'', PStr ''u'')],
       rs_reason = Missing, rs_confidence = Missing, rs_retry = Missing,
       rs_requires_human = Missing \<rparr>"



text \<open>The validated forms of the example steps.\<close>

definition search_plan_step :: "int \<Rightarrow> plan_step" where
  "search_plan_step r =
     \<lparr> ps_step_id = 1, ps_tool = ''search'', ps_args = [(''query'', PStr ''q'')],
       ps_reason = None, ps_confidence = None, ps_retry = Some r,
       ps_requires_human = Some False \<rparr>"











section \<open>Predicates used in the statements and proofs\<close>

definition step_ok :: "execution_step_result \<Rightarrow> bool" where
  "step_ok r = (sr_status r = Ok)"

text \<open>
  The invariant of the loop, for a run that started with the step results \<open>before\<close>:
  the run is finished, and either it is \<open>Ok\<close> and has added only \<open>Ok\<close> steps, or it is
  \<open>Error\<close> or \<open>Paused\<close> with a message and has added \<open>Ok\<close> steps followed by one
  last step of the same status.
\<close>

definition run_shape :: "execution_step_result list \<Rightarrow> execution_result \<Rightarrow> bool" where
  "run_shape before r =
     (er_finished r \<and>
      (er_status r = Ok \<and> (\<exists>new. er_steps r = before @ new \<and> list_all step_ok new)
       \<or> (er_status r = Error \<or> er_status r = Paused) \<and> er_error_message r \<noteq> None \<and>
          (\<exists>new l. er_steps r = before @ new @ [l] \<and> list_all step_ok new \<and>
              sr_status l = er_status r)))"

text \<open>A callback is quiet when it is absent or returns whatever it is given.\<close>

definition quiet :: "callback option \<Rightarrow> bool" where
  "quiet on_update =
     (case on_update of
        None \<Rightarrow> True
      | Some f \<Rightarrow> (\<forall>history step_id st output. f history step_id st output = CbReturns))"



text \<open>
  The attempts made for one step result: as many as one more than its \<open>retry_count\<close>,
  all for its step id.
\<close>

definition accounted :: "(int \<times> attempt) list \<Rightarrow> execution_step_result \<Rightarrow> bool" where
  "accounted b sr =
     (length b = Suc (sr_retry_count sr) \<and> list_all (\<lambda>a. fst a = sr_step_id sr) b)"

text \<open>
  The tool invocations made for one step result: at most one for each attempt, all for
  its step id.
\<close>

definition invoked :: "(int \<times> string \<times> dict) list \<Rightarrow> execution_step_result \<Rightarrow> bool" where
  "invoked cs sr =
     (length cs \<le> Suc (sr_retry_count sr) \<and> list_all (\<lambda>c. fst c = sr_step_id sr) cs)"

text \<open>
  What one plan step may add to a log of the run (the attempts, or the tool invocations):
  at most two entries, all for its step id.
\<close>

definition attempted :: "(int \<times> 'a) list \<Rightarrow> plan_step \<Rightarrow> bool" where
  "attempted b step = (length b \<le> 2 \<and> list_all (\<lambda>a. fst a = ps_step_id step) b)"

fun end_state :: "'w step_end \<Rightarrow> 'w exec_state" where
  "end_state (Continue r c s) = s"
| "end_state (Stop r s) = s"
| "end_state (Escapes e s) = s"
| "end_state (Hangs s) = s"

fun tried_state :: "'w tried \<Rightarrow> 'w exec_state" where
  "tried_state (Passed sr c s) = s"
| "tried_state (Caught m sr s) = s"
| "tried_state (Uncaught e s) = s"
| "tried_state (Stuck s) = s"


text \<open>
  The attempts made for one step result, each ended by a return or a handled failure:
  every attempt but the last failed, and the last one either returned, and the step is
  \<open>Ok\<close>, or failed, and the step is \<open>Error\<close> or \<open>Paused\<close> with an error message
  that ends with the message of that failure.
\<close>

definition is_failure :: "int \<times> attempt \<Rightarrow> bool" where
  "is_failure a = (case snd a of AttemptFailed m \<Rightarrow> True | _ \<Rightarrow> False)"

definition converted :: "(int \<times> attempt) list \<Rightarrow> execution_step_result \<Rightarrow> bool" where
  "converted b sr =
     (b \<noteq> [] \<and> list_all is_failure (butlast b) \<and>
      (case snd (last b) of
         AttemptReturned v \<Rightarrow> sr_status sr = Ok
       | AttemptFailed m \<Rightarrow>
           (sr_status sr = Error \<or> sr_status sr = Paused) \<and>
           (\<exists>p. sr_error_message sr = Some (p @ m))
       | AttemptEscaped e \<Rightarrow> False
       | AttemptBlocked \<Rightarrow> False))"

section \<open>Comparing a timeout with a tool error\<close>

text \<open>
  \<open>raising_instead timeout e f\<close> is the tool \<open>f\<close>, except that a call that would
  complete after the timeout raises the ordinary exception \<open>e\<close> at the time limit
  instead, with the same effect on the world. \<open>without_overruns e env\<close> replaces
  every tool of the registry so.
\<close>

definition raising_instead :: "int \<Rightarrow> string \<Rightarrow> 'w tool \<Rightarrow> 'w tool" where
  "raising_instead timeout e f =
     (\<lambda>args w. case f args w of
        Blocks \<Rightarrow> Blocks
      | Completes r d w' \<Rightarrow>
          if d > real_of_int timeout
          then Completes (Raised (OtherException, e)) (real_of_int timeout) w'
          else Completes r d w')"

definition without_overruns :: "string \<Rightarrow> 'w runner_env \<Rightarrow> 'w runner_env" where
  "without_overruns e env =
     env\<lparr>registry := map (\<lambda>(name, f). (name, raising_instead (step_timeout env) e f))
                         (registry env)\<rparr>"

text \<open>
  An execution result and a state without the text of the failure messages: whether a
  message is set is kept, and so is everything else.
\<close>

definition step_outline ::
  "execution_step_result \<Rightarrow> int \<times> status \<times> pyval \<times> bool \<times> nat \<times> bool" where
  "step_outline sr =
     (sr_step_id sr, sr_status sr, sr_output sr, sr_finished sr, sr_retry_count sr,
      sr_error_message sr \<noteq> None)"


definition update_outline :: "int \<times> status \<times> pyval \<Rightarrow> int \<times> status \<times> pyval" where
  "update_outline u =
     (case u of (i, st, out) \<Rightarrow> (i, st, if st = Error \<or> st = Paused then PNone else out))"

definition attempt_outline :: "int \<times> attempt \<Rightarrow> int \<times> attempt" where
  "attempt_outline a =
     (case a of (i, AttemptFailed m) \<Rightarrow> (i, AttemptFailed []) | (i, x) \<Rightarrow> (i, x))"

definition trace ::
  "'w exec_state \<Rightarrow>
     'w \<times> (int \<times> string \<times> dict) list \<times> (int \<times> attempt) list
       \<times> (int \<times> status \<times> pyval) list \<times> string list \<times> execution_result list" where
  "trace s =
     (world s, calls s, map attempt_outline (attempts s), map update_outline (updates s),
      runner_calls s, saved s)"





section \<open>Basic facts about the result records\<close>

lemma sr_retry_count_step_mark_finished [simp]:
  "sr_retry_count (step_mark_finished st out m r) = sr_retry_count r"
  by (simp add: step_mark_finished_def Let_def)

lemma sr_status_step_mark_finished [simp]: "sr_status (step_mark_finished st out m r) = st"
  by (simp add: step_mark_finished_def Let_def)

lemma sr_step_id_step_mark_finished [simp]:
  "sr_step_id (step_mark_finished st out m r) = sr_step_id r"
  by (simp add: step_mark_finished_def Let_def)

lemma sr_error_message_step_mark_finished_Some [simp]:
  "m \<noteq> [] \<Longrightarrow> sr_error_message (step_mark_finished st out (Some m) r) = Some m"
  by (simp add: step_mark_finished_def Let_def truthy_str_def)

lemma er_steps_mark_finished [simp]: "er_steps (mark_finished st m r) = er_steps r"
  by (simp add: mark_finished_def Let_def)

lemma er_status_mark_finished [simp]: "er_status (mark_finished st m r) = st"
  by (simp add: mark_finished_def Let_def)

lemma er_finished_mark_finished [simp]: "er_finished (mark_finished st m r) = True"
  by (simp add: mark_finished_def Let_def)

lemma er_error_message_mark_finished_Some [simp]:
  "m \<noteq> [] \<Longrightarrow> er_error_message (mark_finished st (Some m) r) = Some m"
  by (simp add: mark_finished_def Let_def truthy_str_def)

lemma er_error_message_mark_finished_None [simp]:
  "er_error_message (mark_finished st None r) = er_error_message r"
  by (simp add: mark_finished_def Let_def truthy_str_def)

section \<open>What the callback and an attempt leave\<close>

lemma call_on_update_frame [simp]:
  "world (state_of (call_on_update cb i st out s)) = world s"
  "calls (state_of (call_on_update cb i st out s)) = calls s"
  "attempts (state_of (call_on_update cb i st out s)) = attempts s"
  "runner_calls (state_of (call_on_update cb i st out s)) = runner_calls s"
  "saved (state_of (call_on_update cb i st out s)) = saved s"
  by (simp_all add: call_on_update_def Let_def split: option.splits cb_result.splits)

lemma call_on_update_ReturnsD:
  "call_on_update cb i st out s = Returns u s' \<Longrightarrow>
   world s' = world s \<and> calls s' = calls s \<and> attempts s' = attempts s"
  using call_on_update_frame [of cb i st out s] by simp

lemma call_on_update_quiet:
  "quiet cb \<Longrightarrow> \<exists>s'. call_on_update cb i st out s = Returns () s'"
  by (auto simp: quiet_def call_on_update_def Let_def split: option.splits)

lemma timed_out_message_nonempty [simp]: "timed_out_message env step \<noteq> []"
  by (simp add: timed_out_message_def)

lemma execute_step_attempts:
  "\<exists>a. attempts (state_of (execute_step env step ctx s)) = attempts s @ [(ps_step_id step, a)]"
  by (auto simp: execute_step_def end_attempt_def Let_def
        split: sum.splits tool_call.splits tool_result.splits)

lemma execute_step_ReturnsD:
  "execute_step env step ctx s = Returns v s' \<Longrightarrow>
   attempts s' = attempts s @ [(ps_step_id step, AttemptReturned v)]"
  by (auto simp: execute_step_def end_attempt_def Let_def
        split: sum.splits tool_call.splits tool_result.splits if_splits)

lemma execute_step_RaisesD:
  "execute_step env step ctx s = Raises (c, m) s' \<Longrightarrow> is_Exception c \<Longrightarrow>
   attempts s' = attempts s @ [(ps_step_id step, AttemptFailed m)] \<and> m \<noteq> [] \<and> c = RuntimeError"
  by (auto simp: execute_step_def end_attempt_def Let_def is_Exception_def
        split: sum.splits tool_call.splits tool_result.splits if_splits)

lemma retry_step_eq: "retry_step env cb step sr ctx s = try_step env cb step sr ctx s"
  by (simp add: retry_step_def try_step_def Let_def)

lemma try_step_PassedD:
  assumes "try_step env cb step sr ctx s = Passed sr' ctx' s'"
  shows "\<exists>v. sr' = step_mark_finished Ok v None sr \<and>
             ctx' = dict_set (context_key (ps_step_id step)) v ctx \<and>
             attempts s' = attempts s @ [(ps_step_id step, AttemptReturned v)]"
proof (cases "execute_step env step ctx s")
  case (Returns v s1)
  show ?thesis
  proof (cases "call_on_update cb (ps_step_id step) Ok v s1")
    case (Returns u s2)
    with \<open>execute_step env step ctx s = Returns v s1\<close> assms
    have "sr' = step_mark_finished Ok v None sr" "ctx' = dict_set (context_key (ps_step_id step)) v ctx"
      "s' = s2"
      by (simp_all add: try_step_def in_try_def Let_def)
    moreover from Returns have "attempts s2 = attempts s1" by (simp add: call_on_update_ReturnsD)
    moreover from \<open>execute_step env step ctx s = Returns v s1\<close>
    have "attempts s1 = attempts s @ [(ps_step_id step, AttemptReturned v)]"
      by (rule execute_step_ReturnsD)
    ultimately show ?thesis by simp
  next
    case (Raises e s2)
    with \<open>execute_step env step ctx s = Returns v s1\<close> assms show ?thesis
      by (simp add: try_step_def in_try_def Let_def split: prod.splits if_splits)
  next
    case (NeverReturns s2)
    with \<open>execute_step env step ctx s = Returns v s1\<close> assms show ?thesis
      by (simp add: try_step_def in_try_def Let_def)
  qed
next
  case (Raises e s1)
  with assms show ?thesis
    by (simp add: try_step_def in_try_def Let_def split: prod.splits if_splits)
next
  case (NeverReturns s1)
  with assms show ?thesis by (simp add: try_step_def in_try_def Let_def)
qed

lemma try_step_CaughtD:
  assumes "try_step env cb step sr ctx s = Caught m sr' s'"
  shows "sr_retry_count sr' = sr_retry_count sr \<and> sr_step_id sr' = sr_step_id sr \<and>
         (\<exists>a. attempts s' = attempts s @ [(ps_step_id step, a)])"
proof (cases "execute_step env step ctx s")
  case (Returns v s1)
  then have a1: "attempts s1 = attempts s @ [(ps_step_id step, AttemptReturned v)]"
    by (rule execute_step_ReturnsD)
  show ?thesis
  proof (cases "call_on_update cb (ps_step_id step) Ok v s1")
    case (Raises e s2)
    from call_on_update_frame(3) [of cb "ps_step_id step" Ok v s1] Raises
    have "attempts s2 = attempts s1" by simp
    with a1 Raises \<open>execute_step env step ctx s = Returns v s1\<close> assms show ?thesis
      by (auto simp: try_step_def in_try_def Let_def split: prod.splits if_splits)
  qed (use \<open>execute_step env step ctx s = Returns v s1\<close> assms in
        \<open>simp_all add: try_step_def in_try_def Let_def\<close>)
next
  case (Raises e s1)
  obtain c x where e: "e = (c, x)" by (cases e)
  with Raises assms have "is_Exception c" "m = x" "sr' = sr" "s' = s1"
    by (simp_all add: try_step_def in_try_def Let_def split: if_splits)
  with execute_step_RaisesD [of env step ctx s c x s1] Raises e show ?thesis by simp
next
  case (NeverReturns s1)
  with assms show ?thesis by (simp add: try_step_def in_try_def Let_def)
qed

lemma try_step_CaughtD_quiet:
  assumes "quiet cb" and "try_step env cb step sr ctx s = Caught m sr' s'"
  shows "sr' = sr \<and> m \<noteq> [] \<and> attempts s' = attempts s @ [(ps_step_id step, AttemptFailed m)]"
proof (cases "execute_step env step ctx s")
  case (Returns v s1)
  from call_on_update_quiet [OF assms(1), of "ps_step_id step" Ok v s1]
  obtain s2 where "call_on_update cb (ps_step_id step) Ok v s1 = Returns () s2" by blast
  with Returns assms(2) show ?thesis
    by (simp add: try_step_def in_try_def Let_def)
next
  case (Raises e s1)
  obtain c x where e: "e = (c, x)" by (cases e)
  with Raises assms(2) have "is_Exception c" "m = x" "sr' = sr" "s' = s1"
    by (simp_all add: try_step_def in_try_def Let_def split: if_splits)
  with execute_step_RaisesD [of env step ctx s c x s1] Raises e show ?thesis by simp
next
  case (NeverReturns s1)
  with assms(2) show ?thesis by (simp add: try_step_def in_try_def Let_def)
qed

lemma execute_step_calls_block:
  "\<exists>cs. calls (state_of (execute_step env step ctx s)) = calls s @ cs \<and> length cs \<le> Suc 0 \<and>
        list_all (\<lambda>c. fst c = ps_step_id step) cs"
proof (cases "get_tool_function env (ps_tool step)")
  case (Inl e)
  then show ?thesis
    by (intro exI [of _ "[]"]) (simp add: execute_step_def end_attempt_def)
next
  case (Inr f)
  then show ?thesis
    by (intro exI [of _ "[(ps_step_id step, ps_tool step, prepare_args step ctx)]"])
       (simp add: execute_step_def end_attempt_def Let_def
          split: tool_call.splits tool_result.splits prod.splits)
qed

lemma try_step_calls_block:
  "\<exists>cs. calls (tried_state (try_step env cb step sr ctx s)) = calls s @ cs \<and> length cs \<le> Suc 0 \<and>
        list_all (\<lambda>c. fst c = ps_step_id step) cs"
proof (cases "execute_step env step ctx s")
  case (Returns v s1)
  from call_on_update_frame(2) [of cb "ps_step_id step" Ok v s1]
  have "calls (tried_state (try_step env cb step sr ctx s)) = calls s1"
    using Returns
    by (cases "call_on_update cb (ps_step_id step) Ok v s1")
       (auto simp: try_step_def in_try_def Let_def split: prod.splits)
  with execute_step_calls_block [of env step ctx s] Returns show ?thesis by simp
next
  case (Raises e s1)
  then have "calls (tried_state (try_step env cb step sr ctx s)) = calls s1"
    by (simp add: try_step_def in_try_def split: prod.splits)
  with execute_step_calls_block [of env step ctx s] Raises show ?thesis by simp
next
  case (NeverReturns s1)
  then have "calls (tried_state (try_step env cb step sr ctx s)) = calls s1"
    by (simp add: try_step_def in_try_def)
  with execute_step_calls_block [of env step ctx s] NeverReturns show ?thesis by simp
qed

lemma try_step_calls_blockD:
  "try_step env cb step sr ctx s = t \<Longrightarrow>
   \<exists>cs. calls (tried_state t) = calls s @ cs \<and> length cs \<le> Suc 0 \<and>
        list_all (\<lambda>c. fst c = ps_step_id step) cs"
  using try_step_calls_block [of env cb step sr ctx s] by simp

section \<open>What one turn of the loop leaves\<close>

lemma handle_failure_StopD:
  assumes "handle_failure cb step result sr msg s = Stop r s'"
  shows "world s' = world s \<and> calls s' = calls s \<and> attempts s' = attempts s \<and>
         er_status r = (if truthy_bool (ps_requires_human step) then Paused else Error) \<and>
         er_finished r \<and> er_error_message r \<noteq> None \<and>
         (\<exists>l. er_steps r = er_steps result @ [l] \<and> sr_status l = er_status r \<and>
              sr_retry_count l = sr_retry_count sr \<and> sr_step_id l = sr_step_id sr \<and>
              (msg \<noteq> [] \<longrightarrow> (\<exists>p. sr_error_message l = Some (p @ msg))))"
proof (cases "truthy_bool (ps_requires_human step)")
  case True
  with assms obtain u where c: "call_on_update cb (ps_step_id step) Paused (PStr msg) s = Returns u s'"
    and r: "r = mark_finished Paused
                     (Some (''Step '' @ str_int (ps_step_id step)
                            @ '' requires human intervention''))
                     (result\<lparr>er_steps := er_steps result @
                        [step_mark_finished Paused PNone
                           (Some (''Human intervention required: '' @ msg)) sr]\<rparr>)"
    by (auto simp: handle_failure_def split: outcome.splits)
  from c have "world s' = world s \<and> calls s' = calls s \<and> attempts s' = attempts s"
    by (rule call_on_update_ReturnsD)
  moreover have "\<exists>p. sr_error_message (step_mark_finished Paused PNone
                           (Some (''Human intervention required: '' @ msg)) sr) = Some (p @ msg)"
    by (rule exI [of _ "''Human intervention required: ''"]) simp
  ultimately show ?thesis using True r by simp
next
  case False
  with assms obtain u where c: "call_on_update cb (ps_step_id step) Error (PStr msg) s = Returns u s'"
    and r: "r = mark_finished Error
                     (Some (''Step '' @ str_int (ps_step_id step) @ '' failed: '' @ msg))
                     (result\<lparr>er_steps := er_steps result @
                        [step_mark_finished Error PNone (Some msg) sr]\<rparr>)"
    by (auto simp: handle_failure_def split: outcome.splits)
  from c have "world s' = world s \<and> calls s' = calls s \<and> attempts s' = attempts s"
    by (rule call_on_update_ReturnsD)
  moreover have "msg \<noteq> [] \<longrightarrow> (\<exists>p. sr_error_message (step_mark_finished Error PNone (Some msg) sr)
                    = Some (p @ msg))"
    by (auto intro: exI [of _ "[]"])
  ultimately show ?thesis using False r by simp
qed

lemma handle_failure_not_Continue [simp]:
  "handle_failure cb step result sr msg s \<noteq> Continue r c s'"
  by (simp add: handle_failure_def split: outcome.splits)


text \<open>
  The ways through one turn of the loop. \<open>first\<close> is the step result the turn
  starts with.
\<close>

lemma run_step_cases [consumes 2, case_names passed failed retried gave_up]:
  fixes step :: plan_step
  defines "first \<equiv> \<lparr> sr_step_id = ps_step_id step, sr_status = Running, sr_output = PNone,
                      sr_error_message = None, sr_finished = False, sr_retry_count = 0 \<rparr>"
  assumes run: "run_step env cb step result ctx s = e"
    and ends: "e = Continue r c s' \<or> e = Stop r s'"
  obtains
    (passed) u s1 sr where
      "call_on_update cb (ps_step_id step) Running PNone s = Returns u s1"
      "try_step env cb step first ctx s1 = Passed sr c s'"
      "e = Continue (result\<lparr>er_steps := er_steps result @ [sr]\<rparr>) c s'"
      "r = result\<lparr>er_steps := er_steps result @ [sr]\<rparr>"
  | (failed) u s1 m sr s2 where
      "call_on_update cb (ps_step_id step) Running PNone s = Returns u s1"
      "try_step env cb step first ctx s1 = Caught m sr s2"
      "\<not> may_retry (ps_retry step) (sr_retry_count sr)"
      "handle_failure cb step result sr m s2 = Stop r s'"
      "e = Stop r s'"
  | (retried) u s1 m sr s2 sr2 where
      "call_on_update cb (ps_step_id step) Running PNone s = Returns u s1"
      "try_step env cb step first ctx s1 = Caught m sr s2"
      "may_retry (ps_retry step) (sr_retry_count sr)"
      "try_step env cb step (sr\<lparr>sr_retry_count := sr_retry_count sr + 1\<rparr>) ctx s2 = Passed sr2 c s'"
      "e = Continue (result\<lparr>er_steps := er_steps result @ [sr2]\<rparr>) c s'"
      "r = result\<lparr>er_steps := er_steps result @ [sr2]\<rparr>"
  | (gave_up) u s1 m sr s2 m2 sr2 s3 where
      "call_on_update cb (ps_step_id step) Running PNone s = Returns u s1"
      "try_step env cb step first ctx s1 = Caught m sr s2"
      "may_retry (ps_retry step) (sr_retry_count sr)"
      "try_step env cb step (sr\<lparr>sr_retry_count := sr_retry_count sr + 1\<rparr>) ctx s2 = Caught m2 sr2 s3"
      "handle_failure cb step result sr2
         (''Step failed after '' @ str_nat (sr_retry_count sr2) @ '' retries: '' @ m2) s3 = Stop r s'"
      "e = Stop r s'"
proof (cases "call_on_update cb (ps_step_id step) Running PNone s")
  case (Returns u s1)
  note c0 = this
  show ?thesis
  proof (cases "try_step env cb step first ctx s1")
    case (Passed sr c1 s2)
    with c0 run ends have "e = Continue (result\<lparr>er_steps := er_steps result @ [sr]\<rparr>) c s'"
        "c1 = c" "s2 = s'" "r = result\<lparr>er_steps := er_steps result @ [sr]\<rparr>"
      by (auto simp: run_step_def Let_def first_def)
    with c0 Passed show ?thesis by (auto intro: passed)
  next
    case (Caught m sr s2)
    note t1 = this
    show ?thesis
    proof (cases "may_retry (ps_retry step) (sr_retry_count sr)")
      case False
      with c0 t1 run have "handle_failure cb step result sr m s2 = e"
        by (simp add: run_step_def Let_def first_def)
      with ends have "handle_failure cb step result sr m s2 = Stop r s'" "e = Stop r s'"
        by auto
      with c0 t1 False show ?thesis by (auto intro: failed)
    next
      case True
      show ?thesis
      proof (cases "try_step env cb step (sr\<lparr>sr_retry_count := sr_retry_count sr + 1\<rparr>) ctx s2")
        case (Passed sr2 c1 s3)
        with c0 t1 True run ends
        have "e = Continue (result\<lparr>er_steps := er_steps result @ [sr2]\<rparr>) c s'"
            "c1 = c" "s3 = s'" "r = result\<lparr>er_steps := er_steps result @ [sr2]\<rparr>"
          by (auto simp: run_step_def Let_def first_def retry_step_eq)
        with c0 t1 True Passed show ?thesis by (auto intro: retried)
      next
        case (Caught m2 sr2 s3)
        with c0 t1 True run have "handle_failure cb step result sr2
           (''Step failed after '' @ str_nat (sr_retry_count sr2) @ '' retries: '' @ m2) s3 = e"
          by (simp add: run_step_def Let_def first_def retry_step_eq)
        with ends have "handle_failure cb step result sr2
           (''Step failed after '' @ str_nat (sr_retry_count sr2) @ '' retries: '' @ m2) s3 = Stop r s'"
            "e = Stop r s'"
          by auto
        with c0 t1 True Caught show ?thesis by (auto intro: gave_up)
      next
        case (Uncaught x s3)
        with c0 t1 True run ends show ?thesis
          by (auto simp: run_step_def Let_def first_def retry_step_eq)
      next
        case (Stuck s3)
        with c0 t1 True run ends show ?thesis
          by (auto simp: run_step_def Let_def first_def retry_step_eq)
      qed
    qed
  next
    case (Uncaught x s2)
    with c0 run ends show ?thesis by (auto simp: run_step_def Let_def first_def)
  next
    case (Stuck s2)
    with c0 run ends show ?thesis by (auto simp: run_step_def Let_def first_def)
  qed
next
  case (Raises x s1)
  with run ends show ?thesis by (auto simp: run_step_def Let_def)
next
  case (NeverReturns s1)
  with run ends show ?thesis by (auto simp: run_step_def Let_def)
qed

lemma run_step_Continue_cases [consumes 1, case_names passed retried]:
  fixes step :: plan_step
  defines "first \<equiv> \<lparr> sr_step_id = ps_step_id step, sr_status = Running, sr_output = PNone,
                      sr_error_message = None, sr_finished = False, sr_retry_count = 0 \<rparr>"
  assumes run: "run_step env cb step result ctx s = Continue r c s'"
  obtains
    (passed) u s1 sr where
      "call_on_update cb (ps_step_id step) Running PNone s = Returns u s1"
      "try_step env cb step first ctx s1 = Passed sr c s'"
      "r = result\<lparr>er_steps := er_steps result @ [sr]\<rparr>"
  | (retried) u s1 m sr s2 sr2 where
      "call_on_update cb (ps_step_id step) Running PNone s = Returns u s1"
      "try_step env cb step first ctx s1 = Caught m sr s2"
      "may_retry (ps_retry step) (sr_retry_count sr)"
      "try_step env cb step (sr\<lparr>sr_retry_count := sr_retry_count sr + 1\<rparr>) ctx s2 = Passed sr2 c s'"
      "r = result\<lparr>er_steps := er_steps result @ [sr2]\<rparr>"
proof -
  have "Continue r c s' = Continue r c s' \<or> Continue r c s' = Stop r s'" by simp
  with run show ?thesis
  proof (cases rule: run_step_cases)
    case (passed u s1 sr)
    then show ?thesis by (intro that(1)) (simp_all add: first_def)
  next
    case (retried u s1 m sr s2 sr2)
    then show ?thesis by (intro that(2)) (simp_all add: first_def)
  qed simp_all
qed

lemma run_step_Stop_cases [consumes 1, case_names failed gave_up]:
  fixes step :: plan_step
  defines "first \<equiv> \<lparr> sr_step_id = ps_step_id step, sr_status = Running, sr_output = PNone,
                      sr_error_message = None, sr_finished = False, sr_retry_count = 0 \<rparr>"
  assumes run: "run_step env cb step result ctx s = Stop r s'"
  obtains
    (failed) u s1 m sr s2 where
      "call_on_update cb (ps_step_id step) Running PNone s = Returns u s1"
      "try_step env cb step first ctx s1 = Caught m sr s2"
      "\<not> may_retry (ps_retry step) (sr_retry_count sr)"
      "handle_failure cb step result sr m s2 = Stop r s'"
  | (gave_up) u s1 m sr s2 m2 sr2 s3 where
      "call_on_update cb (ps_step_id step) Running PNone s = Returns u s1"
      "try_step env cb step first ctx s1 = Caught m sr s2"
      "may_retry (ps_retry step) (sr_retry_count sr)"
      "try_step env cb step (sr\<lparr>sr_retry_count := sr_retry_count sr + 1\<rparr>) ctx s2 = Caught m2 sr2 s3"
      "handle_failure cb step result sr2
         (''Step failed after '' @ str_nat (sr_retry_count sr2) @ '' retries: '' @ m2) s3 = Stop r s'"
proof -
  have "Stop r s' = Continue r undefined s' \<or> Stop r s' = Stop r s'" by simp
  with run show ?thesis
  proof (cases rule: run_step_cases)
    case (failed u s1 m sr s2)
    then show ?thesis by (intro that(1)) (simp_all add: first_def)
  next
    case (gave_up u s1 m sr s2 m2 sr2 s3)
    then show ?thesis by (intro that(2)) (simp_all add: first_def)
  qed simp_all
qed

lemma accounted_single:
  "sr_retry_count sr = 0 \<Longrightarrow> sr_step_id sr = i \<Longrightarrow> accounted [(i, a)] sr"
  by (simp add: accounted_def)

lemma accounted_pair:
  "sr_retry_count sr = Suc 0 \<Longrightarrow> sr_step_id sr = i \<Longrightarrow> accounted [(i, a), (i, b)] sr"
  by (simp add: accounted_def)

text \<open>A turn after which the loop goes on has added one \<open>Ok\<close> step result.\<close>

lemma run_step_ContinueD:
  assumes "run_step env cb step result ctx s = Continue r c s'"
  shows "\<exists>sr b. r = result\<lparr>er_steps := er_steps result @ [sr]\<rparr> \<and> sr_status sr = Ok \<and>
           sr_retry_count sr \<le> Suc 0 \<and> attempts s' = attempts s @ b \<and> accounted b sr \<and>
           (quiet cb \<longrightarrow> converted b sr) \<and>
           (\<exists>cs. calls s' = calls s @ cs \<and> invoked cs sr)"
  using assms
proof (cases rule: run_step_Continue_cases)
  case (passed u s1 sr)
  from try_step_PassedD [OF passed(2)] obtain v where
    v: "sr = step_mark_finished Ok v None
              \<lparr> sr_step_id = ps_step_id step, sr_status = Running, sr_output = PNone,
                sr_error_message = None, sr_finished = False, sr_retry_count = 0 \<rparr>"
       "attempts s' = attempts s1 @ [(ps_step_id step, AttemptReturned v)]"
    by blast
  from passed(1) have a0: "attempts s1 = attempts s" "calls s1 = calls s"
    by (simp_all add: call_on_update_ReturnsD)
  from try_step_calls_blockD [OF passed(2)] obtain cs where
    "calls s' = calls s1 @ cs" "length cs \<le> Suc 0" "list_all (\<lambda>c. fst c = ps_step_id step) cs"
    by auto
  with a0 v have "\<exists>cs. calls s' = calls s @ cs \<and> invoked cs sr"
    by (intro exI [of _ cs]) (simp add: invoked_def)
  with a0 v passed(3) show ?thesis
    by (intro exI [of _ sr] exI [of _ "[(ps_step_id step, AttemptReturned v)]"])
       (simp add: accounted_def converted_def)
next
  case (retried u s1 m sr s2 sr2)
  from retried(1) have a0: "attempts s1 = attempts s" by (simp add: call_on_update_ReturnsD)
  from try_step_CaughtD [OF retried(2)] obtain a where
    a1: "sr_retry_count sr = 0" "sr_step_id sr = ps_step_id step"
        "attempts s2 = attempts s1 @ [(ps_step_id step, a)]"
    by auto
  from try_step_PassedD [OF retried(4)] obtain v where
    v: "sr2 = step_mark_finished Ok v None (sr\<lparr>sr_retry_count := sr_retry_count sr + 1\<rparr>)"
       "attempts s' = attempts s2 @ [(ps_step_id step, AttemptReturned v)]"
    by blast
  have q: "a = AttemptFailed m" if "quiet cb"
    using try_step_CaughtD_quiet [OF that retried(2)] a0 a1 by simp
  from retried(1) have c0: "calls s1 = calls s" by (simp add: call_on_update_ReturnsD)
  from try_step_calls_blockD [OF retried(2)] obtain cs1 where
    c1: "calls s2 = calls s1 @ cs1" "length cs1 \<le> Suc 0"
        "list_all (\<lambda>c. fst c = ps_step_id step) cs1"
    by auto
  from try_step_calls_blockD [OF retried(4)] obtain cs2 where
    c2: "calls s' = calls s2 @ cs2" "length cs2 \<le> Suc 0"
        "list_all (\<lambda>c. fst c = ps_step_id step) cs2"
    by auto
  from c0 c1 c2 a1 v have "\<exists>cs. calls s' = calls s @ cs \<and> invoked cs sr2"
    by (intro exI [of _ "cs1 @ cs2"]) (simp add: invoked_def)
  with a0 a1 v retried(5) q show ?thesis
    by (intro exI [of _ sr2] exI [of _ "[(ps_step_id step, a), (ps_step_id step, AttemptReturned v)]"])
       (simp add: accounted_def converted_def is_failure_def)
qed

text \<open>A turn that returns the result has added one \<open>Error\<close> or \<open>Paused\<close> step result.\<close>

lemma run_step_StopD:
  assumes "run_step env cb step result ctx s = Stop r s'"
  shows "er_finished r \<and> (er_status r = Error \<or> er_status r = Paused) \<and>
         er_status r = (if truthy_bool (ps_requires_human step) then Paused else Error) \<and>
         er_error_message r \<noteq> None \<and>
         (\<exists>l b. er_steps r = er_steps result @ [l] \<and> sr_status l = er_status r \<and>
            sr_retry_count l \<le> Suc 0 \<and> attempts s' = attempts s @ b \<and> accounted b l \<and>
            (quiet cb \<longrightarrow> converted b l) \<and>
            (\<exists>cs. calls s' = calls s @ cs \<and> invoked cs l))"
  using assms
proof (cases rule: run_step_Stop_cases)
  case (failed u s1 m sr s2)
  from failed(1) have a0: "attempts s1 = attempts s" by (simp add: call_on_update_ReturnsD)
  from try_step_CaughtD [OF failed(2)] obtain a where
    a1: "sr_retry_count sr = 0" "sr_step_id sr = ps_step_id step"
        "attempts s2 = attempts s1 @ [(ps_step_id step, a)]"
    by auto
  from handle_failure_StopD [OF failed(4)] obtain l where
    h: "attempts s' = attempts s2"
       "er_status r = (if truthy_bool (ps_requires_human step) then Paused else Error)"
       "er_finished r" "er_error_message r \<noteq> None"
       "er_steps r = er_steps result @ [l]" "sr_status l = er_status r"
       "sr_retry_count l = sr_retry_count sr" "sr_step_id l = sr_step_id sr"
       "m \<noteq> [] \<longrightarrow> (\<exists>p. sr_error_message l = Some (p @ m))"
    by blast
  have q: "a = AttemptFailed m \<and> m \<noteq> []" if "quiet cb"
    using try_step_CaughtD_quiet [OF that failed(2)] a0 a1 by simp
  from failed(1) have c0: "calls s1 = calls s" by (simp add: call_on_update_ReturnsD)
  from try_step_calls_blockD [OF failed(2)] obtain cs1 where
    c1: "calls s2 = calls s1 @ cs1" "length cs1 \<le> Suc 0"
        "list_all (\<lambda>c. fst c = ps_step_id step) cs1"
    by auto
  from handle_failure_StopD [OF failed(4)] have c2: "calls s' = calls s2" by simp
  from c0 c1 c2 a1 h have inv: "\<exists>cs. calls s' = calls s @ cs \<and> invoked cs l"
    by (intro exI [of _ cs1]) (simp add: invoked_def)
  have "accounted [(ps_step_id step, a)] l \<and> (quiet cb \<longrightarrow> converted [(ps_step_id step, a)] l)"
    using a1 h q by (auto simp: accounted_def converted_def)
  with a0 a1 h inv show ?thesis
    by (intro conjI exI [of _ l] exI [of _ "[(ps_step_id step, a)]"]) auto
next
  case (gave_up u s1 m sr s2 m2 sr2 s3)
  from gave_up(1) have a0: "attempts s1 = attempts s" by (simp add: call_on_update_ReturnsD)
  from try_step_CaughtD [OF gave_up(2)] obtain a where
    a1: "sr_retry_count sr = 0" "sr_step_id sr = ps_step_id step"
        "attempts s2 = attempts s1 @ [(ps_step_id step, a)]"
    by auto
  from try_step_CaughtD [OF gave_up(4)] obtain a' where
    a2: "sr_retry_count sr2 = Suc 0" "sr_step_id sr2 = ps_step_id step"
        "attempts s3 = attempts s2 @ [(ps_step_id step, a')]"
    using a1 by auto
  let ?msg = "''Step failed after '' @ str_nat (sr_retry_count sr2) @ '' retries: '' @ m2"
  from handle_failure_StopD [OF gave_up(5)] obtain l where
    h: "attempts s' = attempts s3"
       "er_status r = (if truthy_bool (ps_requires_human step) then Paused else Error)"
       "er_finished r" "er_error_message r \<noteq> None"
       "er_steps r = er_steps result @ [l]" "sr_status l = er_status r"
       "sr_retry_count l = sr_retry_count sr2" "sr_step_id l = sr_step_id sr2"
       "\<exists>p. sr_error_message l = Some (p @ ?msg)"
    by auto
  from h(9) obtain p where "sr_error_message l = Some (p @ ?msg)" by blast
  then have "sr_error_message l =
      Some ((p @ ''Step failed after '' @ str_nat (sr_retry_count sr2) @ '' retries: '') @ m2)"
    by simp
  then have suffix: "\<exists>p. sr_error_message l = Some (p @ m2)" by blast
  have q: "a = AttemptFailed m \<and> a' = AttemptFailed m2" if "quiet cb"
    using try_step_CaughtD_quiet [OF that gave_up(2)] try_step_CaughtD_quiet [OF that gave_up(4)]
          a0 a1 a2 by simp
  have "accounted [(ps_step_id step, a), (ps_step_id step, a')] l \<and>
        (quiet cb \<longrightarrow> converted [(ps_step_id step, a), (ps_step_id step, a')] l)"
    using a2 h(2,6,7,8) q suffix by (auto simp: accounted_def converted_def is_failure_def)
  moreover
  from gave_up(1) have c0: "calls s1 = calls s" by (simp add: call_on_update_ReturnsD)
  from try_step_calls_blockD [OF gave_up(2)] obtain cs1 where
    c1: "calls s2 = calls s1 @ cs1" "length cs1 \<le> Suc 0"
        "list_all (\<lambda>c. fst c = ps_step_id step) cs1"
    by auto
  from try_step_calls_blockD [OF gave_up(4)] obtain cs2 where
    c2: "calls s3 = calls s2 @ cs2" "length cs2 \<le> Suc 0"
        "list_all (\<lambda>c. fst c = ps_step_id step) cs2"
    by auto
  from handle_failure_StopD [OF gave_up(5)] have c3: "calls s' = calls s3" by simp
  from c0 c1 c2 c3 a2 h have "\<exists>cs. calls s' = calls s @ cs \<and> invoked cs l"
    by (intro exI [of _ "cs1 @ cs2"]) (simp add: invoked_def)
  ultimately show ?thesis using a0 a1 a2 h
    by (intro conjI exI [of _ l] exI [of _ "[(ps_step_id step, a), (ps_step_id step, a')]"]) auto
qed

section \<open>The shape of a run\<close>

lemma run_steps_Cons_Returns:
  assumes "run_steps env cb (step # rest) result ctx s = Returns r s'"
  obtains (continued) r1 c1 s1 where
      "run_step env cb step result ctx s = Continue r1 c1 s1"
      "run_steps env cb rest r1 c1 s1 = Returns r s'"
  | (stopped) "run_step env cb step result ctx s = Stop r s'"
  using assms by (cases "run_step env cb step result ctx s") auto

text \<open>
  Every step result a run adds comes with its own attempts, in order, and the attempts
  of the run are those.
\<close>

lemma run_steps_accounted:
  "run_steps env cb steps result ctx s = Returns r s' \<Longrightarrow>
   \<exists>new blocks. er_steps r = er_steps result @ new \<and>
      list_all (\<lambda>sr. sr_retry_count sr \<le> Suc 0) new \<and>
      attempts s' = attempts s @ concat blocks \<and>
      list_all2 (\<lambda>b sr. accounted b sr \<and> (quiet cb \<longrightarrow> converted b sr)) blocks new \<and>
      (\<exists>groups. calls s' = calls s @ concat groups \<and> list_all2 invoked groups new)"
proof (induction steps arbitrary: result ctx s)
  case Nil
  then show ?case
    by (intro exI [of _ "[]"]) auto
next
  case (Cons step rest)
  from Cons.prems show ?case
  proof (cases rule: run_steps_Cons_Returns)
    case (continued r1 c1 s1)
    from run_step_ContinueD [OF continued(1)] obtain sr b cs where
      t: "r1 = result\<lparr>er_steps := er_steps result @ [sr]\<rparr>" "sr_retry_count sr \<le> Suc 0"
         "attempts s1 = attempts s @ b" "accounted b sr" "quiet cb \<longrightarrow> converted b sr"
         "calls s1 = calls s @ cs" "invoked cs sr"
      by blast
    from Cons.IH [OF continued(2)] obtain new blocks groups where
      n: "er_steps r = er_steps r1 @ new" "list_all (\<lambda>sr. sr_retry_count sr \<le> Suc 0) new"
         "attempts s' = attempts s1 @ concat blocks"
         "list_all2 (\<lambda>b sr. accounted b sr \<and> (quiet cb \<longrightarrow> converted b sr)) blocks new"
         "calls s' = calls s1 @ concat groups" "list_all2 invoked groups new"
      by blast
    from t n have "calls s' = calls s @ concat (cs # groups) \<and> list_all2 invoked (cs # groups) (sr # new)"
      by simp
    then have "\<exists>groups. calls s' = calls s @ concat groups \<and> list_all2 invoked groups (sr # new)"
      by blast
    with t n show ?thesis
      by (intro exI [of _ "sr # new"] exI [of _ "b # blocks"]) simp
  next
    case stopped
    from run_step_StopD [OF stopped] obtain l b cs where
      t: "er_steps r = er_steps result @ [l]" "sr_retry_count l \<le> Suc 0"
         "attempts s' = attempts s @ b" "accounted b l" "quiet cb \<longrightarrow> converted b l"
         "calls s' = calls s @ cs" "invoked cs l"
      by blast
    then have "calls s' = calls s @ concat [cs] \<and> list_all2 invoked [cs] [l]" by simp
    then have "\<exists>groups. calls s' = calls s @ concat groups \<and> list_all2 invoked groups [l]"
      by blast
    with t show ?thesis
      by (intro exI [of _ "[l]"] exI [of _ "[b]"]) simp
  qed
qed

lemma run_shape_append:
  assumes "run_shape (before @ [x]) r" and "step_ok x"
  shows "run_shape before r"
proof -
  from assms(1) consider
      new where "er_finished r" "er_status r = Ok" "er_steps r = (before @ [x]) @ new"
        "list_all step_ok new"
    | new l where "er_finished r" "er_status r = Error \<or> er_status r = Paused"
        "er_error_message r \<noteq> None" "er_steps r = (before @ [x]) @ new @ [l]"
        "list_all step_ok new" "sr_status l = er_status r"
    by (auto simp: run_shape_def)
  then show ?thesis
  proof cases
    case 1
    with assms(2) have "er_steps r = before @ (x # new) \<and> list_all step_ok (x # new)" by simp
    with 1 show ?thesis unfolding run_shape_def by blast
  next
    case 2
    with assms(2) have "er_steps r = before @ (x # new) @ [l] \<and> list_all step_ok (x # new)"
      by simp
    with 2 show ?thesis unfolding run_shape_def by blast
  qed
qed

lemma run_steps_shape:
  "run_steps env cb steps result ctx s = Returns r s' \<Longrightarrow> run_shape (er_steps result) r"
proof (induction steps arbitrary: result ctx s)
  case Nil
  then show ?case by (auto simp: run_shape_def)
next
  case (Cons step rest)
  from Cons.prems show ?case
  proof (cases rule: run_steps_Cons_Returns)
    case (continued r1 c1 s1)
    from run_step_ContinueD [OF continued(1)] obtain sr where
      t: "r1 = result\<lparr>er_steps := er_steps result @ [sr]\<rparr>" "sr_status sr = Ok"
      by blast
    from Cons.IH [OF continued(2)] t have "run_shape (er_steps result @ [sr]) r" by simp
    with t(2) show ?thesis by (auto intro: run_shape_append simp: step_ok_def)
  next
    case stopped
    from run_step_StopD [OF stopped] obtain l where
      "er_finished r" "er_status r = Error \<or> er_status r = Paused" "er_error_message r \<noteq> None"
      "er_steps r = er_steps result @ [] @ [l]" "sr_status l = er_status r"
      by auto
    then have "(er_status r = Error \<or> er_status r = Paused) \<and> er_error_message r \<noteq> None \<and>
          (\<exists>new l. er_steps r = er_steps result @ new @ [l] \<and> list_all step_ok new \<and>
              sr_status l = er_status r)"
      by (intro conjI exI [of _ "[]"] exI [of _ l]) simp_all
    with \<open>er_finished r\<close> show ?thesis unfolding run_shape_def by blast
  qed
qed

lemma run_shape_not_ok_length:
  "run_shape before r \<Longrightarrow> er_status r \<noteq> Ok \<Longrightarrow> length before < length (er_steps r)"
  by (auto simp: run_shape_def)

text \<open>A run that did not end \<open>Ok\<close> is the run of the steps it got to.\<close>

lemma run_steps_truncate:
  "run_steps env cb steps result ctx s = Returns r s' \<Longrightarrow> er_status r \<noteq> Ok \<Longrightarrow>
   run_steps env cb (take (length (er_steps r) - length (er_steps result)) steps) result ctx s
     = Returns r s'"
proof (induction steps arbitrary: result ctx s)
  case Nil
  then show ?case by auto
next
  case (Cons step rest)
  let ?k = "length (er_steps r) - length (er_steps result)"
  from Cons.prems(1) show ?case
  proof (cases rule: run_steps_Cons_Returns)
    case (continued r1 c1 s1)
    from run_step_ContinueD [OF continued(1)] obtain sr where
      t: "r1 = result\<lparr>er_steps := er_steps result @ [sr]\<rparr>"
      by blast
    from continued(2) have "run_shape (er_steps r1) r" by (rule run_steps_shape)
    then have "length (er_steps r1) < length (er_steps r)"
      using Cons.prems(2) by (rule run_shape_not_ok_length)
    with t have k: "?k = Suc (length (er_steps r) - length (er_steps r1))" by simp
    from Cons.IH [OF continued(2) Cons.prems(2)] continued(1) show ?thesis
      unfolding k by simp
  next
    case stopped
    from run_step_StopD [OF stopped] have "?k = Suc 0" by auto
    with stopped show ?thesis by simp
  qed
qed

lemma validate_steps_take:
  "validate_steps plan = Inr vs \<Longrightarrow> validate_steps (take k plan) = Inr (take k vs)"
proof (induction plan arbitrary: vs k)
  case Nil
  then show ?case by simp
next
  case (Cons a plan)
  then show ?case by (cases k) (auto split: sum.splits)
qed

lemma run_shape_fail_stop:
  assumes "run_shape [] r" and "i < length (er_steps r)"
    and "sr_status (er_steps r ! i) = Error \<or> sr_status (er_steps r ! i) = Paused"
  shows "Suc i = length (er_steps r) \<and> er_status r \<noteq> Ok"
proof -
  have ok: "sr_status (new ! j) = Ok" if "list_all step_ok new" "j < length new" for new j
    using that by (simp add: list_all_length step_ok_def)
  from assms(1) consider
      new where "er_status r = Ok" "er_steps r = new" "list_all step_ok new"
    | new l where "er_status r \<noteq> Ok" "er_steps r = new @ [l]" "list_all step_ok new"
    by (auto simp: run_shape_def)
  then show ?thesis
  proof cases
    case 1
    with assms(2,3) ok [of new i] show ?thesis by auto
  next
    case 2
    show ?thesis
    proof (cases "i < length new")
      case True
      with 2 assms(3) ok [of new i] show ?thesis by (auto simp: nth_append)
    next
      case False
      with 2 assms(2) show ?thesis by auto
    qed
  qed
qed

section \<open>The facade rejects an empty plan\<close>

text \<open>
  C9. Called with an empty plan, the facade raises \<open>ValueError\<close> at once: no
  execution result is returned, and the state is untouched, so no runner has been
  invoked and nothing has been saved.
\<close>

theorem empty_plan_rejected:
  "execute_plan fenv [] session_id task_id on_update save_results s =
     Raises (ValueError, ''Plan cannot be empty'') s"
  by (simp add: execute_plan_def)

theorem empty_plan_rejected_witness:
  "execute_plan native_facade [] None None None True initial_state =
     Raises (ValueError, ''Plan cannot be empty'') initial_state"
  by (rule empty_plan_rejected)

section \<open>Fail-stop\<close>

text \<open>
  C3. If the step result at position \<open>i\<close> of an execution result is \<open>Error\<close> or
  \<open>Paused\<close>, it is the last one, and the run is the run of the first \<open>i + 1\<close> steps of
  the plan alone: same result, same final state, so the later steps contribute nothing,
  not even a tool invocation or a progress update.
\<close>

theorem fail_stop:
  assumes run: "CustomRunner_execute_plan env plan task_id session_id on_update s = Returns r s'"
    and i: "i < length (er_steps r)"
    and st: "sr_status (er_steps r ! i) = Error \<or> sr_status (er_steps r ! i) = Paused"
  shows "Suc i = length (er_steps r) \<and>
         CustomRunner_execute_plan env (take (Suc i) plan) task_id session_id on_update s
           = Returns r s'"
proof (cases "validate_steps plan")
  case (Inl e)
  with run i show ?thesis
    by (auto simp: CustomRunner_execute_plan_def Let_def)
next
  case (Inr vs)
  let ?r0 = "\<lparr> er_task_id = task_id, er_status = Running, er_steps = [],
                er_finished = False, er_error_message = None, er_session_id = session_id \<rparr>"
  from run Inr have rs: "run_steps env on_update vs ?r0 [] s = Returns r s'"
    by (simp add: CustomRunner_execute_plan_def Let_def)
  then have "run_shape (er_steps ?r0) r" by (rule run_steps_shape)
  then have "run_shape [] r" by simp
  from run_shape_fail_stop [OF this i st]
  have len: "Suc i = length (er_steps r)" and nok: "er_status r \<noteq> Ok"
    by simp_all
  from run_steps_truncate [OF rs nok] len
  have "run_steps env on_update (take (Suc i) vs) ?r0 [] s = Returns r s'"
    by simp
  with validate_steps_take [OF Inr, of "Suc i"] len show ?thesis
    by (simp add: CustomRunner_execute_plan_def Let_def)
qed

theorem fail_stop_witness:
  "CustomRunner_execute_plan (flaky_env 2) two_searches ''t'' None (Some recorder) initial_state
     = Returns failed_result failed_state \<and>
   0 < length (er_steps failed_result) \<and>
   sr_status (er_steps failed_result ! 0) = Error \<and>
   Suc 0 = length (er_steps failed_result) \<and>
   CustomRunner_execute_plan (flaky_env 2) (take (Suc 0) two_searches) ''t'' None (Some recorder)
     initial_state = Returns failed_result failed_state"
proof -
  have run: "CustomRunner_execute_plan (flaky_env 2) two_searches ''t'' None (Some recorder)
      initial_state = Returns failed_result failed_state"
    by code_simp
  have i: "0 < length (er_steps failed_result)"
    by code_simp
  have e: "sr_status (er_steps failed_result ! 0) = Error"
    by code_simp
  from fail_stop [OF run i disjI1 [OF e]] run i e show ?thesis by blast
qed

section \<open>Runs against tame tools with a quiet callback\<close>





section \<open>Every run against tame tools ends in a terminal status\<close>








section \<open>Validation of a raw plan\<close>

lemma validate_steps_rejects:
  "step \<in> set plan \<Longrightarrow> PlanStep step = Inl e \<Longrightarrow> \<exists>e'. validate_steps plan = Inl e'"
  by (induction plan) (auto split: sum.splits)

lemma rejected_plan:
  "validate_steps plan = Inl e \<Longrightarrow>
   CustomRunner_execute_plan env plan task_id session_id on_update s =
     Returns \<lparr> er_task_id = task_id, er_status = Error, er_steps = [], er_finished = True,
        er_error_message = Some (''Invalid plan format: '' @ str_validation_error env e),
        er_session_id = session_id \<rparr> s"
  by (simp add: CustomRunner_execute_plan_def Let_def mark_finished_def truthy_str_def)

lemma PlanStep_unknown_tool:
  "rs_tool step = Val t \<Longrightarrow> \<not> List.member tool_literals t \<Longrightarrow> \<exists>e. PlanStep step = Inl e"
  by (auto simp: PlanStep_def Let_def field_tool_def split: sum.splits)

lemma required_not_html:
  "map_of required_args t = Some req \<Longrightarrow> a \<in> set req \<Longrightarrow> a \<noteq> ''html''"
  by (auto simp: required_args_def split: if_splits)

lemma check_required_missing:
  "a \<in> set req \<Longrightarrow> \<not> dict_has a v \<Longrightarrow> a \<noteq> ''html'' \<Longrightarrow> \<exists>m. check_required t v req = Some m"
  by (induction req) auto

lemma PlanStep_missing_arg:
  assumes "rs_tool step = Val t" and "rs_args step = Val v"
    and "map_of required_args t = Some req" and "a \<in> set req" and "\<not> dict_has a v"
  shows "\<exists>e. PlanStep step = Inl e"
proof (cases "List.member tool_literals t")
  case False
  with assms(1) show ?thesis by (rule PlanStep_unknown_tool)
next
  case True
  from assms(3,4) have "a \<noteq> ''html''" by (rule required_not_html)
  with assms(4,5) obtain m where "check_required t v req = Some m"
    using check_required_missing by blast
  with assms(1,2,3) True have "field_args (rs_args step) (value_of (field_tool (rs_tool step)))
      = Inl [(''args'', ValidatorError m)]"
    by (simp add: field_args_def field_tool_def validate_tool_args_def)
  then show ?thesis
    by (auto simp: PlanStep_def Let_def split: sum.splits)
qed

text \<open>
  C2, as amended. A raw plan with a step that names a tool outside the five known
  ones, or that omits an argument required for its known tool, is rejected by the
  native runner before any step runs: the result it returns has status \<open>Error\<close>, no
  step results and the message \<open>Invalid plan format: ...\<close>, and the state is
  unchanged, so no tool has been invoked and nothing has been retried. The runner does
  not look at the sequence of step ids.
\<close>

theorem invalid_plan_rejected:
  assumes "step \<in> set plan" and "rs_tool step = Val t"
    and "\<not> List.member tool_literals t \<or>
         (\<exists>req a v. map_of required_args t = Some req \<and> rs_args step = Val v \<and>
                     a \<in> set req \<and> \<not> dict_has a v)"
  shows "\<exists>e. CustomRunner_execute_plan env plan task_id session_id on_update s =
           Returns \<lparr> er_task_id = task_id, er_status = Error, er_steps = [], er_finished = True,
              er_error_message = Some (''Invalid plan format: '' @ str_validation_error env e),
              er_session_id = session_id \<rparr> s"
proof -
  from assms(2,3) obtain e where "PlanStep step = Inl e"
    using PlanStep_unknown_tool PlanStep_missing_arg by blast
  with assms(1) obtain e' where "validate_steps plan = Inl e'"
    using validate_steps_rejects by blast
  then show ?thesis by (blast intro: rejected_plan)
qed

theorem invalid_plan_rejected_witness:
  "search_step 0 \<lparr>rs_tool := Val ''click''\<rparr> \<in> set [search_step 0, search_step 0 \<lparr>rs_tool := Val ''click''\<rparr>] \<and>
   \<not> List.member tool_literals ''click'' \<and>
   open_step 1 \<lparr>rs_args := Val []\<rparr> \<in> set [open_step 1 \<lparr>rs_args := Val []\<rparr>] \<and>
   map_of required_args ''open'' = Some [''url''] \<and> \<not> dict_has ''url'' [] \<and>
   CustomRunner_execute_plan (flaky_env 0)
       [search_step 0, search_step 0 \<lparr>rs_tool := Val ''click''\<rparr>] ''t'' None (Some recorder)
       initial_state
     = Returns \<lparr> er_task_id = ''t'', er_status = Error, er_steps = [], er_finished = True,
          er_error_message = Some ''Invalid plan format: validation error'', er_session_id = None \<rparr> initial_state \<and>
   CustomRunner_execute_plan browse_env [open_step 1 \<lparr>rs_args := Val []\<rparr>] ''t'' None
       (Some recorder) initial_state
     = Returns \<lparr> er_task_id = ''t'', er_status = Error, er_steps = [], er_finished = True,
          er_error_message = Some ''Invalid plan format: validation error'', er_session_id = None \<rparr> initial_state"
proof -
  let ?bad = "search_step 0 \<lparr>rs_tool := Val ''click''\<rparr>"
  let ?noarg = "open_step 1 \<lparr>rs_args := Val []\<rparr>"
  have m1: "?bad \<in> set [search_step 0, ?bad]" by simp
  have t1: "rs_tool ?bad = Val ''click''" by simp
  have u1: "\<not> List.member tool_literals ''click''" by code_simp
  have m2: "?noarg \<in> set [?noarg]" by simp
  have t2: "rs_tool ?noarg = Val ''open''" by (simp add: open_step_def)
  have r2: "map_of required_args ''open'' = Some [''url'']" by code_simp
  have d2: "\<not> dict_has ''url'' []" by code_simp
  have h2: "\<exists>req a v. map_of required_args ''open'' = Some req \<and> rs_args ?noarg = Val v \<and>
                     a \<in> set req \<and> \<not> dict_has a v"
    using r2 d2 by (intro exI [of _ "[''url'']"] exI [of _ "''url''"] exI [of _ "[]"]) simp
  from invalid_plan_rejected [OF m1 t1 disjI1 [OF u1], of "flaky_env 0" "''t''" None
      "Some recorder" initial_state]
  have c1: "CustomRunner_execute_plan (flaky_env 0) [search_step 0, ?bad] ''t'' None (Some recorder)
       initial_state
     = Returns \<lparr> er_task_id = ''t'', er_status = Error, er_steps = [], er_finished = True,
          er_error_message = Some ''Invalid plan format: validation error'', er_session_id = None \<rparr> initial_state"
    by (auto simp: flaky_env_def)
  from invalid_plan_rejected [OF m2 t2 disjI2 [OF h2], of browse_env "''t''" None
      "Some recorder" initial_state]
  have c2: "CustomRunner_execute_plan browse_env [?noarg] ''t'' None (Some recorder) initial_state
     = Returns \<lparr> er_task_id = ''t'', er_status = Error, er_steps = [], er_finished = True,
          er_error_message = Some ''Invalid plan format: validation error'', er_session_id = None \<rparr> initial_state"
    by (auto simp: browse_env_def)
  from m1 u1 m2 r2 d2 c1 c2 show ?thesis by blast
qed

text \<open>
  C2 as stated fails: a one-step plan whose only step id is 2 is not the sequence
  \<open>1..1\<close>, and the runner accepts it and invokes the tool.
\<close>

theorem step_ids_not_checked:
  "CustomRunner_execute_plan (flaky_env 0) [(search_step 0)\<lparr>rs_step_id := Val 2\<rparr>] ''t'' None
     (Some recorder) initial_state
   = Returns
      \<lparr>er_task_id = ''t'', er_status = Ok,
       er_steps = [\<lparr>sr_step_id = 2, sr_status = Ok, sr_output = PStr ''done'',
                    sr_error_message = None, sr_finished = True, sr_retry_count = 0\<rparr>],
       er_finished = True, er_error_message = None, er_session_id = None\<rparr>
      \<lparr>world = 1, calls = [(2, ''search'', [(''query'', PStr ''q'')])],
       attempts = [(2, AttemptReturned (PStr ''done''))],
       updates = [(2, Running, PNone), (2, Ok, PStr ''done'')],
       runner_calls = [], saved = []\<rparr>"
  by code_simp

section \<open>Confidence out of range\<close>

lemma PlanStep_confidence:
  assumes "rs_confidence step = Val c" and "c < 0 \<or> 1 < c"
  shows "\<exists>e. PlanStep step = Inl e \<and> (''confidence'', if c < 0 then NotGe else NotLe) \<in> set e"
proof -
  from assms have "field_confidence (rs_confidence step) = Inl [(''confidence'', if c < 0 then NotGe else NotLe)]"
    by (auto simp: field_confidence_def)
  then show ?thesis
    by (auto simp: PlanStep_def Let_def split: sum.splits)
qed

text \<open>
  C6, as amended. A raw step whose confidence is below 0 or above 1 is rejected by
  the validation with a field error on \<open>confidence\<close> (the bound is a constraint of
  the field, the value is not corrected), and a plan with such a step is rejected by
  the runner as an invalid plan.
\<close>

theorem confidence_out_of_range_rejected:
  assumes "step \<in> set plan" and "rs_confidence step = Val c" and "c < 0 \<or> 1 < c"
  shows "(\<exists>e. PlanStep step = Inl e \<and> (''confidence'', if c < 0 then NotGe else NotLe) \<in> set e) \<and>
         (\<exists>e. CustomRunner_execute_plan env plan task_id session_id on_update s =
           Returns \<lparr> er_task_id = task_id, er_status = Error, er_steps = [], er_finished = True,
              er_error_message = Some (''Invalid plan format: '' @ str_validation_error env e),
              er_session_id = session_id \<rparr> s)"
proof -
  from assms(2,3) obtain e where e: "PlanStep step = Inl e"
      "(''confidence'', if c < 0 then NotGe else NotLe) \<in> set e"
    using PlanStep_confidence by blast
  with assms(1) obtain e' where "validate_steps plan = Inl e'"
    using validate_steps_rejects by blast
  with e show ?thesis by (blast intro: rejected_plan)
qed

theorem confidence_out_of_range_rejected_witness:
  "search_step 0 \<lparr>rs_confidence := Val (3 / 2)\<rparr> \<in> set [search_step 0 \<lparr>rs_confidence := Val (3 / 2)\<rparr>] \<and>
   rs_confidence (search_step 0 \<lparr>rs_confidence := Val (3 / 2)\<rparr>) = Val (3 / 2) \<and>
   (1::real) < 3 / 2 \<and>
   (\<exists>e. PlanStep (search_step 0 \<lparr>rs_confidence := Val (3 / 2)\<rparr>) = Inl e \<and>
        (''confidence'', NotLe) \<in> set e) \<and>
   CustomRunner_execute_plan (flaky_env 0)
       [search_step 0 \<lparr>rs_confidence := Val (3 / 2)\<rparr>] ''t'' None (Some recorder) initial_state
     = Returns \<lparr> er_task_id = ''t'', er_status = Error, er_steps = [], er_finished = True,
          er_error_message = Some ''Invalid plan format: validation error'', er_session_id = None \<rparr> initial_state"
proof -
  let ?step = "search_step 0 \<lparr>rs_confidence := Val (3 / 2)\<rparr>"
  have m: "?step \<in> set [?step]" by simp
  have c: "rs_confidence ?step = Val (3 / 2)" by simp
  have r: "(1::real) < 3 / 2" by simp
  from confidence_out_of_range_rejected [OF m c disjI2 [OF r],
      of "flaky_env 0" "''t''" None "Some recorder" initial_state]
  have "(\<exists>e. PlanStep ?step = Inl e \<and> (''confidence'', NotLe) \<in> set e) \<and>
        CustomRunner_execute_plan (flaky_env 0) [?step] ''t'' None (Some recorder) initial_state
          = Returns \<lparr> er_task_id = ''t'', er_status = Error, er_steps = [], er_finished = True,
          er_error_message = Some ''Invalid plan format: validation error'', er_session_id = None \<rparr> initial_state"
    by (auto simp: flaky_env_def)
  with m c r show ?thesis by blast
qed

text \<open>
  C6 as stated fails: the confidence 1.5 is not clamped to 1, the step is rejected and
  so is the plan.
\<close>

theorem confidence_not_clamped:
  "PlanStep (search_step 0 \<lparr>rs_confidence := Val (3 / 2)\<rparr>) = Inl [(''confidence'', NotLe)] \<and>
   CustomRunner_execute_plan (flaky_env 0) [search_step 0 \<lparr>rs_confidence := Val (3 / 2)\<rparr>] ''t''
       None (Some recorder) initial_state
     = Returns \<lparr> er_task_id = ''t'', er_status = Error, er_steps = [], er_finished = True,
          er_error_message = Some ''Invalid plan format: validation error'', er_session_id = None \<rparr> initial_state"
  by code_simp

section \<open>The retry is a single second attempt\<close>

text \<open>
  C1 at \<open>r = 2\<close>: a tool that raises on its first two invocations and would return on
  the third, in a step with retry budget 2. The runner invokes it twice and gives up:
  the run and the step are \<open>Error\<close> and \<open>retry_count\<close> is 1.
\<close>

theorem retry_budget_two_gives_up:
  "CustomRunner_execute_plan (flaky_env 2) [search_step 2] ''t'' None (Some recorder) initial_state
   = Returns
      \<lparr>er_task_id = ''t'', er_status = Error,
       er_steps =
         [\<lparr>sr_step_id = 1, sr_status = Error, sr_output = PNone,
           sr_error_message = Some ''Step failed after 1 retries: Tool execution failed: boom'',
           sr_finished = True, sr_retry_count = 1\<rparr>],
       er_finished = True,
       er_error_message =
         Some ''Step 1 failed: Step failed after 1 retries: Tool execution failed: boom'',
       er_session_id = None\<rparr>
      \<lparr>world = 2,
       calls = [(1, ''search'', [(''query'', PStr ''q'')]), (1, ''search'', [(''query'', PStr ''q'')])],
       attempts = [(1, AttemptFailed ''Tool execution failed: boom''),
                   (1, AttemptFailed ''Tool execution failed: boom'')],
       updates =
         [(1, Running, PNone),
          (1, Error, PStr ''Step failed after 1 retries: Tool execution failed: boom'')],
       runner_calls = [], saved = []\<rparr>"
  by code_simp

section \<open>Tool invocations of a run\<close>




lemma handle_failure_calls [simp]:
  "calls (end_state (handle_failure cb step result sr msg s)) = calls s"
proof -
  have "calls (end_state (case c of Returns u s' \<Rightarrow> Stop (f s') s' | Raises e s' \<Rightarrow> Escapes e s'
                          | NeverReturns s' \<Rightarrow> Hangs s')) = calls (state_of c)"
    for c :: "(unit, 'a exec_state) outcome" and f
    by (cases c) simp_all
  then show ?thesis by (simp add: handle_failure_def)
qed




section \<open>A tool that cannot be resolved\<close>







section \<open>The markup handed to \<open>extract\<close>\<close>









section \<open>A timeout is handled as a tool error\<close>

lemma map_of_map_values:
  "map_of (map (\<lambda>(name, f). (name, g f)) xs) k = map_option g (map_of xs k)"
  by (induction xs) auto

lemma map_fst_map_values: "map fst (map (\<lambda>(name, f). (name, g f)) xs) = map fst xs"
  by (induction xs) auto

lemma without_overruns_simps [simp]:
  "step_timeout (without_overruns e env) = step_timeout env"
  "repr_keys (without_overruns e env) = repr_keys env"
  "str_validation_error (without_overruns e env) = str_validation_error env"
  "map fst (registry (without_overruns e env)) = map fst (registry env)"
  "map_of (registry (without_overruns e env)) name =
     map_option (raising_instead (step_timeout env) e) (map_of (registry env) name)"
  by (simp_all add: without_overruns_def map_of_map_values map_fst_map_values del: map_map)

lemma timed_out_message_without_overruns [simp]:
  "timed_out_message (without_overruns e env) step = timed_out_message env step"
  by (simp add: timed_out_message_def)


lemma trace_call:
  "trace s = trace t \<Longrightarrow>
   trace (s\<lparr>calls := calls s @ [c], world := w\<rparr>) = trace (t\<lparr>calls := calls t @ [c], world := w\<rparr>)"
  by (simp add: trace_def)





lemma step_outline_retry_count:
  "step_outline sr = step_outline sr' \<Longrightarrow> sr_retry_count sr = sr_retry_count sr'"
  by (simp add: step_outline_def)








lemma timeout_message_distinct:
  "''Step '' @ a \<noteq> ''Tool execution failed: '' @ b"
  "''Step '' @ a \<noteq> ''Tool not available: '' @ b"
  "''Tool execution failed: '' @ b \<noteq> ''Step '' @ a"
  by simp_all






section \<open>At most one retry per step\<close>

lemma try_step_attempts:
  "\<exists>cs. attempts (tried_state (try_step env cb step sr ctx s)) = attempts s @ cs \<and>
        length cs \<le> Suc 0 \<and> list_all (\<lambda>c. fst c = ps_step_id step) cs"
proof -
  from execute_step_attempts [of env step ctx s] obtain a where
    a: "attempts (state_of (execute_step env step ctx s)) = attempts s @ [(ps_step_id step, a)]"
    by blast
  have "attempts (tried_state (try_step env cb step sr ctx s))
          = attempts (state_of (execute_step env step ctx s))"
  proof (cases "execute_step env step ctx s")
    case (Returns v s1)
    from call_on_update_frame(3) [of cb "ps_step_id step" Ok v s1] Returns show ?thesis
      by (cases "call_on_update cb (ps_step_id step) Ok v s1")
         (auto simp: try_step_def in_try_def Let_def split: prod.splits)
  next
    case (Raises e s1)
    then show ?thesis by (simp add: try_step_def in_try_def split: prod.splits)
  next
    case (NeverReturns s1)
    then show ?thesis by (simp add: try_step_def in_try_def)
  qed
  with a show ?thesis by simp
qed

text \<open>
  One turn of the loop, whatever its end, adds at most two entries to a log that the
  callback leaves alone and to which a \<open>try\<close> block adds at most one.
\<close>

lemma run_step_log:
  fixes f :: "'w exec_state \<Rightarrow> (int \<times> 'a) list"
  assumes cb: "\<And>i st out s. f (state_of (call_on_update cb i st out s)) = f s"
    and tr: "\<And>sr s. \<exists>cs. f (tried_state (try_step env cb step sr ctx s)) = f s @ cs \<and>
               length cs \<le> Suc 0 \<and> list_all (\<lambda>c. fst c = ps_step_id step) cs"
  shows "\<exists>b. f (end_state (run_step env cb step res ctx s)) = f s @ b \<and> attempted b step"
proof -
  let ?first = "\<lparr> sr_step_id = ps_step_id step, sr_status = Running, sr_output = PNone,
                   sr_error_message = None, sr_finished = False, sr_retry_count = 0 \<rparr>"
  have hf: "f (end_state (handle_failure cb step res sr m t)) = f t" for sr m t
  proof -
    have "f (end_state (case c of Returns u s' \<Rightarrow> Stop (h s') s' | Raises e s' \<Rightarrow> Escapes e s'
                          | NeverReturns s' \<Rightarrow> Hangs s')) = f (state_of c)"
      for c :: "(unit, 'w exec_state) outcome" and h
      by (cases c) simp_all
    then show ?thesis by (simp add: handle_failure_def cb)
  qed
  show ?thesis
  proof (cases "call_on_update cb (ps_step_id step) Running PNone s")
    case (Raises e s1)
    with cb [of "ps_step_id step" Running PNone s] show ?thesis
      by (intro exI [of _ "[]"]) (simp add: run_step_def attempted_def)
  next
    case (NeverReturns s1)
    with cb [of "ps_step_id step" Running PNone s] show ?thesis
      by (intro exI [of _ "[]"]) (simp add: run_step_def attempted_def)
  next
    case (Returns u s1)
    with cb [of "ps_step_id step" Running PNone s] have f1: "f s1 = f s" by simp
    from tr [of ?first s1] f1 obtain c1 where
      c1: "f (tried_state (try_step env cb step ?first ctx s1)) = f s @ c1"
          "length c1 \<le> Suc 0" "list_all (\<lambda>c. fst c = ps_step_id step) c1"
      by auto
    then have one: "attempted c1 step" by (simp add: attempted_def)
    show ?thesis
    proof (cases "try_step env cb step ?first ctx s1")
      case (Passed sr c s2)
      with Returns c1(1) one show ?thesis
        by (intro exI [of _ c1]) (simp add: run_step_def)
    next
      case (Uncaught e s2)
      with Returns c1(1) one show ?thesis
        by (intro exI [of _ c1]) (simp add: run_step_def)
    next
      case (Stuck s2)
      with Returns c1(1) one show ?thesis
        by (intro exI [of _ c1]) (simp add: run_step_def)
    next
      case (Caught m sr s2)
      with c1(1) have f2: "f s2 = f s @ c1" by simp
      show ?thesis
      proof (cases "may_retry (ps_retry step) (sr_retry_count sr)")
        case False
        with Returns Caught f2 one show ?thesis
          by (intro exI [of _ c1]) (simp add: run_step_def hf)
      next
        case True
        let ?sr1 = "sr\<lparr>sr_retry_count := sr_retry_count sr + 1\<rparr>"
        from tr [of ?sr1 s2] f2 obtain c2 where
          c2: "f (tried_state (try_step env cb step ?sr1 ctx s2)) = f s @ c1 @ c2"
              "length c2 \<le> Suc 0" "list_all (\<lambda>c. fst c = ps_step_id step) c2"
          by auto
        with c1 have two: "attempted (c1 @ c2) step" by (simp add: attempted_def)
        have "f (end_state (run_step env cb step res ctx s)) = f s @ c1 @ c2"
        proof (cases "try_step env cb step ?sr1 ctx s2")
          case (Passed sr2 c s3)
          with Returns Caught True c2(1) show ?thesis
            by (simp add: run_step_def retry_step_eq Let_def)
        next
          case (Uncaught e s3)
          with Returns Caught True c2(1) show ?thesis
            by (simp add: run_step_def retry_step_eq Let_def)
        next
          case (Stuck s3)
          with Returns Caught True c2(1) show ?thesis
            by (simp add: run_step_def retry_step_eq Let_def)
        next
          case (Caught m2 sr2 s3)
          with Returns \<open>try_step env cb step ?first ctx s1 = Caught m sr s2\<close> True c2(1)
          show ?thesis
            by (simp add: run_step_def retry_step_eq Let_def hf)
        qed
        with two show ?thesis by (intro exI [of _ "c1 @ c2"]) simp
      qed
    qed
  qed
qed

text \<open>
  So a run of the loop, whatever its end, adds to such a log one group of at most two
  entries for each of the steps it came to, in their order.
\<close>

lemma run_steps_log:
  fixes f :: "'w exec_state \<Rightarrow> (int \<times> 'a) list"
  assumes cb: "\<And>i st out s. f (state_of (call_on_update cb i st out s)) = f s"
    and tr: "\<And>step sr ctx s.
               \<exists>cs. f (tried_state (try_step env cb step sr ctx s)) = f s @ cs \<and>
               length cs \<le> Suc 0 \<and> list_all (\<lambda>c. fst c = ps_step_id step) cs"
  shows "\<exists>blocks. length blocks \<le> length steps \<and>
           f (state_of (run_steps env cb steps res ctx s)) = f s @ concat blocks \<and>
           list_all2 attempted blocks (take (length blocks) steps)"
proof (induction steps arbitrary: res ctx s)
  case Nil
  show ?case by (intro exI [of _ "[]"]) simp
next
  case (Cons step rest)
  from run_step_log [of f cb env step ctx res s, OF cb tr] obtain b where
    b: "f (end_state (run_step env cb step res ctx s)) = f s @ b" "attempted b step"
    by blast
  show ?case
  proof (cases "run_step env cb step res ctx s")
    case (Continue r c s1)
    from Cons.IH [of r c s1] obtain blocks where
      i: "length blocks \<le> length rest"
         "f (state_of (run_steps env cb rest r c s1)) = f s1 @ concat blocks"
         "list_all2 attempted blocks (take (length blocks) rest)"
      by blast
    from Continue b i show ?thesis
      by (intro exI [of _ "b # blocks"]) simp
  next
    case (Stop r s1)
    with b show ?thesis by (intro exI [of _ "[b]"]) simp
  next
    case (Escapes e s1)
    with b show ?thesis by (intro exI [of _ "[b]"]) simp
  next
    case (Hangs s1)
    with b show ?thesis by (intro exI [of _ "[b]"]) simp
  qed
qed

lemma execute_plan_log:
  fixes f :: "'w exec_state \<Rightarrow> (int \<times> 'a) list"
  assumes cb: "\<And>i st out s. f (state_of (call_on_update on_update i st out s)) = f s"
    and tr: "\<And>step sr ctx s.
               \<exists>cs. f (tried_state (try_step env on_update step sr ctx s)) = f s @ cs \<and>
               length cs \<le> Suc 0 \<and> list_all (\<lambda>c. fst c = ps_step_id step) cs"
    and v: "validate_steps plan = Inr steps"
  shows "\<exists>blocks. length blocks \<le> length steps \<and>
           f (state_of (CustomRunner_execute_plan env plan task_id session_id on_update s))
             = f s @ concat blocks \<and>
           list_all2 attempted blocks (take (length blocks) steps)"
  using run_steps_log [of f on_update env steps _ "[]" s, OF cb tr] v
  by (simp add: CustomRunner_execute_plan_def Let_def)

text \<open>
  C10. In every execution result the native runner returns, every step result has a
  \<open>retry_count\<close> of at most 1, whatever retry budget the step declares, and no more
  was done than it says: the calls of \<open>_execute_step\<close> made during the run split, in
  order, into one group for each step result, with exactly one more call than its
  \<open>retry_count\<close> (so the first attempt and at most one retry), all for its step id;
  and so do the tool invocations, with at most one invocation for each attempt. The
  bound on what is done does not depend on the run returning a result: however the run
  of a valid plan ends, also when an exception leaves the runner or a tool never comes
  back, the attempts made split, in order, into one group of at most two for each of
  the steps the run came to, and so do the tool invocations; and for a plan that is
  not valid nothing is attempted.
\<close>

theorem retry_count_at_most_one:
  "(CustomRunner_execute_plan env plan task_id session_id on_update s = Returns r s' \<longrightarrow>
      (\<forall>sr \<in> set (er_steps r). sr_retry_count sr \<le> 1) \<and>
      (\<exists>blocks. attempts s' = attempts s @ concat blocks \<and>
                list_all2 accounted blocks (er_steps r)) \<and>
      (\<exists>groups. calls s' = calls s @ concat groups \<and>
                list_all2 invoked groups (er_steps r)))
   \<and>
   (validate_steps plan = Inr steps \<longrightarrow>
      (\<exists>blocks. length blocks \<le> length steps \<and>
         attempts (state_of (CustomRunner_execute_plan env plan task_id session_id on_update s))
           = attempts s @ concat blocks \<and>
         list_all2 attempted blocks (take (length blocks) steps)) \<and>
      (\<exists>groups. length groups \<le> length steps \<and>
         calls (state_of (CustomRunner_execute_plan env plan task_id session_id on_update s))
           = calls s @ concat groups \<and>
         list_all2 attempted groups (take (length groups) steps)))
   \<and>
   (validate_steps plan = Inl err \<longrightarrow>
      attempts (state_of (CustomRunner_execute_plan env plan task_id session_id on_update s))
        = attempts s \<and>
      calls (state_of (CustomRunner_execute_plan env plan task_id session_id on_update s))
        = calls s)"
proof (intro conjI impI)
  assume run: "CustomRunner_execute_plan env plan task_id session_id on_update s = Returns r s'"
  have "(\<forall>sr \<in> set (er_steps r). sr_retry_count sr \<le> 1) \<and>
      (\<exists>blocks. attempts s' = attempts s @ concat blocks \<and>
                list_all2 accounted blocks (er_steps r)) \<and>
      (\<exists>groups. calls s' = calls s @ concat groups \<and>
                list_all2 invoked groups (er_steps r))"
  proof (cases "validate_steps plan")
    case (Inl e)
    with run have "er_steps r = []" "s' = s"
      by (auto simp: CustomRunner_execute_plan_def Let_def)
    then show ?thesis by simp
  next
    case (Inr vs)
    let ?r0 = "\<lparr> er_task_id = task_id, er_status = Running, er_steps = [],
                  er_finished = False, er_error_message = None, er_session_id = session_id \<rparr>"
    from run Inr have "run_steps env on_update vs ?r0 [] s = Returns r s'"
      by (simp add: CustomRunner_execute_plan_def Let_def)
    from run_steps_accounted [OF this] obtain blocks groups where
      a: "list_all (\<lambda>sr. sr_retry_count sr \<le> Suc 0) (er_steps r)"
         "attempts s' = attempts s @ concat blocks"
         "list_all2 (\<lambda>b sr. accounted b sr \<and> (quiet on_update \<longrightarrow> converted b sr)) blocks (er_steps r)"
         "calls s' = calls s @ concat groups" "list_all2 invoked groups (er_steps r)"
      by auto
    from a(3) have "list_all2 accounted blocks (er_steps r)"
      by (rule list_all2_mono) simp
    with a show ?thesis by (auto simp: list_all_iff)
  qed
  then show "\<forall>sr \<in> set (er_steps r). sr_retry_count sr \<le> 1"
    and "\<exists>blocks. attempts s' = attempts s @ concat blocks \<and>
                list_all2 accounted blocks (er_steps r)"
    and "\<exists>groups. calls s' = calls s @ concat groups \<and>
                list_all2 invoked groups (er_steps r)"
    by blast+
next
  assume v: "validate_steps plan = Inr steps"
  show "\<exists>blocks. length blocks \<le> length steps \<and>
         attempts (state_of (CustomRunner_execute_plan env plan task_id session_id on_update s))
           = attempts s @ concat blocks \<and>
         list_all2 attempted blocks (take (length blocks) steps)"
    by (rule execute_plan_log [OF call_on_update_frame(3) try_step_attempts v])
  show "\<exists>groups. length groups \<le> length steps \<and>
         calls (state_of (CustomRunner_execute_plan env plan task_id session_id on_update s))
           = calls s @ concat groups \<and>
         list_all2 attempted groups (take (length groups) steps)"
    by (rule execute_plan_log [OF call_on_update_frame(2) try_step_calls_block v])
next
  assume "validate_steps plan = Inl err"
  then show "attempts (state_of (CustomRunner_execute_plan env plan task_id session_id on_update s))
        = attempts s"
    and "calls (state_of (CustomRunner_execute_plan env plan task_id session_id on_update s))
        = calls s"
    by (simp_all add: CustomRunner_execute_plan_def Let_def)
qed

theorem retry_count_at_most_one_witness:
  "CustomRunner_execute_plan (flaky_env 2) [search_step 5] ''t'' None (Some recorder) initial_state
     = Returns failed_result failed_state \<and>
   validate_steps [search_step 5] = Inr [search_plan_step 5] \<and>
   validate_steps [(search_step 5)\<lparr>rs_confidence := Val (3 / 2)\<rparr>] = Inl [(''confidence'', NotLe)] \<and>
   map sr_retry_count (er_steps failed_result) = [1] \<and>
   sr_retry_count (hd (er_steps failed_result)) \<le> 1 \<and>
   (\<exists>blocks. attempts failed_state = attempts initial_state @ concat blocks \<and>
             list_all2 accounted blocks (er_steps failed_result)) \<and>
   (\<exists>groups. calls failed_state = calls initial_state @ concat groups \<and>
             list_all2 invoked groups (er_steps failed_result)) \<and>
   (\<exists>blocks. length blocks \<le> length [search_plan_step 5] \<and>
      attempts failed_state = attempts initial_state @ concat blocks \<and>
      list_all2 attempted blocks (take (length blocks) [search_plan_step 5])) \<and>
   (\<exists>groups. length groups \<le> length [search_plan_step 5] \<and>
      calls failed_state = calls initial_state @ concat groups \<and>
      list_all2 attempted groups (take (length groups) [search_plan_step 5])) \<and>
   length (attempts failed_state) = 2 \<and> length (calls failed_state) = 2 \<and>
   calls (state_of (CustomRunner_execute_plan (flaky_env 2)
                      [(search_step 5)\<lparr>rs_confidence := Val (3 / 2)\<rparr>] ''t'' None (Some recorder)
                      initial_state)) = calls initial_state"
proof -
  let ?bad = "[(search_step 5)\<lparr>rs_confidence := Val (3 / 2)\<rparr>]"
  have run: "CustomRunner_execute_plan (flaky_env 2) [search_step 5] ''t'' None (Some recorder)
      initial_state = Returns failed_result failed_state"
    by code_simp
  have v: "validate_steps [search_step 5] = Inr [search_plan_step 5]"
    by code_simp
  have w: "validate_steps ?bad = Inl [(''confidence'', NotLe)]"
    by code_simp
  have m: "map sr_retry_count (er_steps failed_result) = [1]"
    by code_simp
  have n: "length (attempts failed_state) = 2" "length (calls failed_state) = 2"
    by (simp_all add: failed_state_def)
  have h: "hd (er_steps failed_result) \<in> set (er_steps failed_result)"
    by (simp add: failed_result_def)
  note good = retry_count_at_most_one [of "flaky_env 2" "[search_step 5]" "''t''" None
      "Some recorder" initial_state failed_result failed_state "[search_plan_step 5]"]
  note bad = retry_count_at_most_one [of "flaky_env 2" ?bad "''t''" None
      "Some recorder" initial_state _ _ _ "[(''confidence'', NotLe)]"]
  from good [THEN conjunct1, THEN mp, OF run] h
  have c1: "sr_retry_count (hd (er_steps failed_result)) \<le> 1"
    and c2: "\<exists>blocks. attempts failed_state = attempts initial_state @ concat blocks \<and>
             list_all2 accounted blocks (er_steps failed_result)"
    and c3: "\<exists>groups. calls failed_state = calls initial_state @ concat groups \<and>
             list_all2 invoked groups (er_steps failed_result)"
    by blast+
  from good [THEN conjunct2, THEN conjunct1, THEN mp, OF v]
  have c4: "\<exists>blocks. length blocks \<le> length [search_plan_step 5] \<and>
      attempts failed_state = attempts initial_state @ concat blocks \<and>
      list_all2 attempted blocks (take (length blocks) [search_plan_step 5])"
    and c5: "\<exists>groups. length groups \<le> length [search_plan_step 5] \<and>
      calls failed_state = calls initial_state @ concat groups \<and>
      list_all2 attempted groups (take (length groups) [search_plan_step 5])"
    unfolding run state_of.simps by blast+
  from bad [THEN conjunct2, THEN conjunct2, THEN mp, OF w]
  have c6: "calls (state_of (CustomRunner_execute_plan (flaky_env 2) ?bad ''t'' None (Some recorder)
                      initial_state)) = calls initial_state"
    by (rule conjunct2)
  show ?thesis
    by (intro conjI) (rule run v w m c1 c2 c3 c4 c5 n c6)+
qed

end
